theory Spec2Isabelle
  imports Complex_Main "HOL-Library.Word"
begin

section \<open>The ROI editor of the vehicle-analytics frontend\<close>

text \<open>
  The source file \<^verbatim>\<open>frontend/src/pages/ROISetup.jsx\<close> holds two versions of the React
  component \<^verbatim>\<open>ROISetup\<close>: the editor with a camera selection, which stores one normalized
  rectangle per camera (lines 1 to 218), and an older single-camera editor, which posts pixel
  corner points for a gate (lines 219 to 318). The first is modelled by the record
  \<open>editor\<close> and the definitions without suffix, the second by \<open>legacy_editor\<close> and the
  definitions with the suffix \<open>_legacy\<close>.

  React state is a record, a handler is a function from the state to the new state, and
  what a handler does beyond that (requests, alerts, console output) is returned as a list
  of effects.
\<close>

subsection \<open>JavaScript numbers\<close>

text \<open>
  A JavaScript number is an IEEE 754 binary64 value: a finite value, one of the two
  infinities, or \<^verbatim>\<open>NaN\<close>. A sum, difference, product or quotient of finite values is the exact
  result rounded to the nearest binary64 value, a tie to the even significand; the
  significand has 53 bits, so the values around \<open>v\<close> are spaced \<open>2 powi (expo v - 52)\<close>
  apart, the spacing never goes below \<open>2 powi - 1074\<close> (the subnormal range), and a result
  that rounds to \<open>2 ^ 1024\<close> or beyond is an infinity. The two zeros are one value here: the
  only operation that tells them apart is a division by zero, and every divisor of the
  editor is an image dimension, which is never negative.
\<close>

datatype js_number = Num real | Infinity | MinusInfinity | NaN

text \<open>The number of binary digits of a natural number.\<close>

fun bits :: "nat \<Rightarrow> nat" where
  "bits n = (if n = 0 then 0 else Suc (bits (n div 2)))"

declare bits.simps [simp del]

text \<open>The binary exponent of a value other than zero: \<open>2 powi expo v \<le> \<bar>v\<bar> < 2 powi (expo v + 1)\<close>.\<close>

definition expo :: "real \<Rightarrow> int" where
  "expo v =
     (if 1 \<le> \<bar>v\<bar> then int (bits (nat \<lfloor>\<bar>v\<bar>\<rfloor>)) - 1
      else - int (bits (nat (\<lceil>1 / \<bar>v\<bar>\<rceil> - 1))))"

text \<open>Rounding to the nearest integer, a tie to the even one.\<close>

definition rne :: "real \<Rightarrow> int" where
  "rne y =
     (let f = \<lfloor>y\<rfloor>; d = y - of_int f
      in if d < 1 / 2 then f else if 1 / 2 < d then f + 1 else if even f then f else f + 1)"

text \<open>The nearest value with a 53-bit significand and an exponent that has no upper bound.\<close>

definition binary64 :: "real \<Rightarrow> real" where
  "binary64 v =
     (if v = 0 then 0
      else (let e = max (expo v - 52) (- 1074)
            in of_int (rne (v / 2 powi e)) * 2 powi e))"

text \<open>The number that an exact result \<open>v\<close> becomes.\<close>

definition round64 :: "real \<Rightarrow> js_number" where
  "round64 v =
     (if 2 ^ 1024 \<le> binary64 v then Infinity
      else if binary64 v \<le> - (2 ^ 1024) then MinusInfinity
      else Num (binary64 v))"

text \<open>\<^verbatim>\<open>a < b\<close> and \<^verbatim>\<open>a <= b\<close>: false when an operand is \<^verbatim>\<open>NaN\<close>.\<close>

fun js_lt :: "js_number \<Rightarrow> js_number \<Rightarrow> bool" where
  "js_lt (Num a) (Num b) = (a < b)"
| "js_lt (Num a) Infinity = True"
| "js_lt MinusInfinity (Num b) = True"
| "js_lt MinusInfinity Infinity = True"
| "js_lt a b = False"

fun js_le :: "js_number \<Rightarrow> js_number \<Rightarrow> bool" where
  "js_le (Num a) (Num b) = (a \<le> b)"
| "js_le (Num a) Infinity = True"
| "js_le MinusInfinity (Num b) = True"
| "js_le MinusInfinity Infinity = True"
| "js_le Infinity Infinity = True"
| "js_le MinusInfinity MinusInfinity = True"
| "js_le a b = False"

text \<open>\<^verbatim>\<open>a > b\<close>.\<close>

definition js_gt :: "js_number \<Rightarrow> js_number \<Rightarrow> bool" where
  "js_gt a b = js_lt b a"

text \<open>\<^verbatim>\<open>a + b\<close>.\<close>

fun js_add :: "js_number \<Rightarrow> js_number \<Rightarrow> js_number" where
  "js_add NaN b = NaN"
| "js_add a NaN = NaN"
| "js_add (Num a) (Num b) = round64 (a + b)"
| "js_add Infinity MinusInfinity = NaN"
| "js_add MinusInfinity Infinity = NaN"
| "js_add Infinity b = Infinity"
| "js_add a Infinity = Infinity"
| "js_add MinusInfinity b = MinusInfinity"
| "js_add a MinusInfinity = MinusInfinity"

text \<open>\<^verbatim>\<open>-a\<close>, and \<^verbatim>\<open>a - b\<close>, which is \<^verbatim>\<open>a + (-b)\<close>.\<close>

fun js_neg :: "js_number \<Rightarrow> js_number" where
  "js_neg (Num a) = Num (- a)"
| "js_neg Infinity = MinusInfinity"
| "js_neg MinusInfinity = Infinity"
| "js_neg NaN = NaN"

definition js_sub :: "js_number \<Rightarrow> js_number \<Rightarrow> js_number" where
  "js_sub a b = js_add a (js_neg b)"

text \<open>An infinity with the sign of \<open>a\<close>, or \<^verbatim>\<open>NaN\<close> for zero.\<close>

definition signed_infinity :: "real \<Rightarrow> js_number" where
  "signed_infinity a = (if a = 0 then NaN else if 0 < a then Infinity else MinusInfinity)"

text \<open>\<^verbatim>\<open>a * b\<close>.\<close>

fun js_mul :: "js_number \<Rightarrow> js_number \<Rightarrow> js_number" where
  "js_mul NaN b = NaN"
| "js_mul a NaN = NaN"
| "js_mul (Num a) (Num b) = round64 (a * b)"
| "js_mul (Num a) Infinity = signed_infinity a"
| "js_mul (Num a) MinusInfinity = signed_infinity (- a)"
| "js_mul Infinity (Num b) = signed_infinity b"
| "js_mul MinusInfinity (Num b) = signed_infinity (- b)"
| "js_mul Infinity Infinity = Infinity"
| "js_mul MinusInfinity MinusInfinity = Infinity"
| "js_mul Infinity MinusInfinity = MinusInfinity"
| "js_mul MinusInfinity Infinity = MinusInfinity"

text \<open>\<^verbatim>\<open>a / b\<close>, for a divisor that is not a negative zero: a finite value over zero is an
  infinity of its sign, and zero over zero is \<^verbatim>\<open>NaN\<close>.\<close>

fun js_div :: "js_number \<Rightarrow> js_number \<Rightarrow> js_number" where
  "js_div NaN b = NaN"
| "js_div a NaN = NaN"
| "js_div (Num a) (Num b) = (if b = 0 then signed_infinity a else round64 (a / b))"
| "js_div (Num a) Infinity = Num 0"
| "js_div (Num a) MinusInfinity = Num 0"
| "js_div Infinity (Num b) = (if 0 \<le> b then Infinity else MinusInfinity)"
| "js_div MinusInfinity (Num b) = (if 0 \<le> b then MinusInfinity else Infinity)"
| "js_div a b = NaN"

text \<open>\<^verbatim>\<open>Math.min(a, b)\<close> and \<^verbatim>\<open>Math.abs(a)\<close>.\<close>

fun js_min :: "js_number \<Rightarrow> js_number \<Rightarrow> js_number" where
  "js_min NaN b = NaN"
| "js_min a NaN = NaN"
| "js_min a b = (if js_lt b a then b else a)"

fun js_abs :: "js_number \<Rightarrow> js_number" where
  "js_abs (Num a) = Num \<bar>a\<bar>"
| "js_abs Infinity = Infinity"
| "js_abs MinusInfinity = Infinity"
| "js_abs NaN = NaN"

subsection \<open>Data\<close>

text \<open>The decoded snapshot: the image element, of which the editor reads \<^verbatim>\<open>width\<close> and
  \<^verbatim>\<open>height\<close>, which are unsigned 32-bit integers; \<open>img_src\<close> is the object URL of the blob it
  was decoded from.\<close>

record image =
  img_width :: "32 word"
  img_height :: "32 word"
  img_src :: string

text \<open>A dimension as the number the editor computes with.\<close>

definition dim :: "32 word \<Rightarrow> js_number" where
  "dim d = Num (real (unat d))"

text \<open>\<^verbatim>\<open>{x, y, width, height}\<close>, in pixels of the snapshot.\<close>

record pixel_rect =
  rect_x :: js_number
  rect_y :: js_number
  rect_width :: js_number
  rect_height :: js_number

text \<open>\<^verbatim>\<open>{x, y, w, h}\<close>, as fractions of the snapshot's width and height. For the body of an
  ROI response, a field is the number that the multiplications of lines 60 to 63 make of
  it: \<^verbatim>\<open>NaN\<close> for a field that is missing.\<close>

record norm_rect =
  roi_x :: js_number
  roi_y :: js_number
  roi_w :: js_number
  roi_h :: js_number

record camera =
  cam_id :: nat
  cam_name :: string
  rtsp_url :: string

text \<open>The six \<^verbatim>\<open>useState\<close> cells of the component (lines 7 to 12); \<^verbatim>\<open>null\<close> is \<open>None\<close>.\<close>

record editor =
  cameras :: "camera list"
  selectedCameraId :: "nat option"
  snapshot :: "image option"
  rect :: "pixel_rect option"
  isDrawing :: bool
  roiNormalized :: "norm_rect option"

definition initial :: editor where
  "initial = \<lparr>cameras = [], selectedCameraId = None, snapshot = None, rect = None,
     isDrawing = False, roiNormalized = None\<rparr>"

datatype request =
    GetCameras
  | GetSnapshot nat
  | GetRoi nat
  | PutRoi nat norm_rect string
  | PostRois nat nat string "(js_number \<times> js_number) list"

text \<open>What a handler does besides writing the state: \<^verbatim>\<open>alert\<close>, \<^verbatim>\<open>console.error\<close>, a
  request of the \<^verbatim>\<open>api\<close> client, and a rejected promise that nothing catches.\<close>

datatype effect = Alert string | ConsoleError string | Fetch request | Unhandled

subsection \<open>Seeding the rectangle from the stored ROI (lines 57 to 65)\<close>

text \<open>The effect hook on \<^verbatim>\<open>[snapshot, roiNormalized]\<close>: it runs after each update of one of
  the two cells and returns early while one of them is \<^verbatim>\<open>null\<close>.\<close>

definition roiEffect :: "editor \<Rightarrow> editor" where
  "roiEffect s =
     (case snapshot s of
        None \<Rightarrow> s
      | Some img \<Rightarrow>
          (case roiNormalized s of
             None \<Rightarrow> s
           | Some roi \<Rightarrow>
               s\<lparr>rect := Some \<lparr>rect_x = js_mul (roi_x roi) (dim (img_width img)),
                                rect_y = js_mul (roi_y roi) (dim (img_height img)),
                                rect_width = js_mul (roi_w roi) (dim (img_width img)),
                                rect_height = js_mul (roi_h roi) (dim (img_height img))\<rparr>\<rparr>))"

subsection \<open>Corner normalization and the pointer handlers (lines 67 to 91)\<close>

definition normalizeRect :: "pixel_rect option \<Rightarrow> pixel_rect option" where
  "normalizeRect raw =
     (case raw of
        None \<Rightarrow> None
      | Some r \<Rightarrow>
          Some \<lparr>rect_x = js_min (rect_x r) (js_add (rect_x r) (rect_width r)),
                rect_y = js_min (rect_y r) (js_add (rect_y r) (rect_height r)),
                rect_width = js_abs (rect_width r),
                rect_height = js_abs (rect_height r)\<rparr>)"

text \<open>A pointer position of the stage, \<^verbatim>\<open>{x, y}\<close>.\<close>

type_synonym point = "js_number \<times> js_number"

definition handleMouseDown :: "point \<Rightarrow> editor \<Rightarrow> editor" where
  "handleMouseDown p s =
     (case snapshot s of
        None \<Rightarrow> s
      | Some img \<Rightarrow>
          s\<lparr>isDrawing := True,
            rect := Some \<lparr>rect_x = fst p, rect_y = snd p,
                          rect_width = Num 0, rect_height = Num 0\<rparr>\<rparr>)"

definition handleMouseMove :: "point \<Rightarrow> editor \<Rightarrow> editor" where
  "handleMouseMove p s =
     (case rect s of
        None \<Rightarrow> s
      | Some r \<Rightarrow>
          if \<not> isDrawing s then s
          else s\<lparr>rect := Some (r\<lparr>rect_width := js_sub (fst p) (rect_x r),
                                  rect_height := js_sub (snd p) (rect_y r)\<rparr>)\<rparr>)"

definition handleMouseUp :: "editor \<Rightarrow> editor" where
  "handleMouseUp s =
     (case rect s of
        None \<Rightarrow> s
      | Some r \<Rightarrow> s\<lparr>isDrawing := False, rect := normalizeRect (Some r)\<rparr>)"

text \<open>\<^verbatim>\<open>onDragEnd\<close> of the drawn rectangle (lines 191 to 194): only rendered while \<^verbatim>\<open>rect\<close>
  is set.\<close>

definition onDragEnd :: "point \<Rightarrow> editor \<Rightarrow> editor" where
  "onDragEnd p s =
     (case rect s of
        None \<Rightarrow> s
      | Some r \<Rightarrow> s\<lparr>rect := Some (r\<lparr>rect_x := fst p, rect_y := snd p\<rparr>)\<rparr>)"

definition handleClear :: "editor \<Rightarrow> editor" where
  "handleClear s = s\<lparr>rect := None, roiNormalized := None\<rparr>"

text \<open>One pointer gesture is a list of pointer events, handled in order.\<close>

datatype pointer = Down point | Move point | Up

fun pointer_event :: "editor \<Rightarrow> pointer \<Rightarrow> editor" where
  "pointer_event s (Down p) = handleMouseDown p s"
| "pointer_event s (Move p) = handleMouseMove p s"
| "pointer_event s Up = handleMouseUp s"

definition gesture :: "editor \<Rightarrow> pointer list \<Rightarrow> editor" where
  "gesture s es = foldl pointer_event s es"

subsection \<open>Saving (lines 93 to 120)\<close>

text \<open>The constant \<^verbatim>\<open>normalized\<close> of \<^verbatim>\<open>handleSave\<close> (lines 95 to 100).\<close>

definition normalized :: "pixel_rect \<Rightarrow> image \<Rightarrow> norm_rect" where
  "normalized r img =
     \<lparr>roi_x = js_div (rect_x r) (dim (img_width img)),
      roi_y = js_div (rect_y r) (dim (img_height img)),
      roi_w = js_div (rect_width r) (dim (img_width img)),
      roi_h = js_div (rect_height r) (dim (img_height img))\<rparr>"

text \<open>The two checks of \<^verbatim>\<open>handleSave\<close> before the request (lines 101 to 108): the result is
  the text of the alert, or \<open>None\<close> when both checks pass.\<close>

definition validate :: "norm_rect \<Rightarrow> string option" where
  "validate n =
     (if js_lt (roi_x n) (Num 0) \<or> js_lt (roi_y n) (Num 0) \<or>
         js_le (roi_w n) (Num 0) \<or> js_le (roi_h n) (Num 0)
      then Some ''ROI must be within the image bounds.''
      else if js_gt (js_add (roi_x n) (roi_w n)) (Num 1) \<or>
              js_gt (js_add (roi_y n) (roi_h n)) (Num 1)
      then Some ''ROI must fit within the image bounds.''
      else None)"

text \<open>\<^verbatim>\<open>handleSave\<close> up to its \<^verbatim>\<open>await\<close>: it returns at once, with the effects it had, or it
  is suspended at \<^verbatim>\<open>api.put\<close> for camera \<open>c\<close> with the body \<open>n\<close>. A camera identifier is falsy
  when it is \<^verbatim>\<open>null\<close> or \<open>0\<close>. The state is not written before the \<^verbatim>\<open>await\<close>.\<close>

datatype save_step = Return "effect list" | Await nat norm_rect

definition handleSave :: "editor \<Rightarrow> save_step" where
  "handleSave s =
     (case rect s of
        None \<Rightarrow> Return []
      | Some r \<Rightarrow>
          (case snapshot s of
             None \<Rightarrow> Return []
           | Some img \<Rightarrow>
               (case selectedCameraId s of
                  None \<Rightarrow> Return []
                | Some c \<Rightarrow>
                    if c = 0 then Return []
                    else (case validate (normalized r img) of
                            Some msg \<Rightarrow> Return [Alert msg]
                          | None \<Rightarrow> Await c (normalized r img)))))"

text \<open>The request \<^verbatim>\<open>handleSave\<close> is suspended at (lines 110 to 113).\<close>

definition put_request :: "nat \<Rightarrow> norm_rect \<Rightarrow> request" where
  "put_request c n = PutRoi c n ''normalized''"

text \<open>The outcome of the request: acknowledged, or failed with the detail string of the
  response, if it has one (\<^verbatim>\<open>err.response?.data?.detail\<close>).\<close>

datatype reply = Ack | Failed "string option"

text \<open>\<^verbatim>\<open>handleSave\<close> after its \<^verbatim>\<open>await\<close> (lines 114 to 119), on the state the editor has by
  then; the update of \<^verbatim>\<open>roiNormalized\<close> runs the effect hook of lines 57 to 65.\<close>

definition handleSave_resume :: "reply \<Rightarrow> norm_rect \<Rightarrow> editor \<Rightarrow> editor \<times> effect list" where
  "handleSave_resume rep n s =
     (case rep of
        Ack \<Rightarrow> (roiEffect (s\<lparr>roiNormalized := Some n\<rparr>), [Alert ''ROI saved''])
      | Failed detail \<Rightarrow>
          (s, [ConsoleError ''roi save error'',
               Alert (case detail of
                        None \<Rightarrow> ''Failed to save ROI''
                      | Some m \<Rightarrow> if m = [] then ''Failed to save ROI'' else m)]))"

text \<open>A whole save during which nothing else happens: \<open>api\<close> is the outcome of the request.\<close>

definition save :: "(nat \<Rightarrow> norm_rect \<Rightarrow> reply) \<Rightarrow> editor \<Rightarrow> editor \<times> effect list" where
  "save api s =
     (case handleSave s of
        Return es \<Rightarrow> (s, es)
      | Await c n \<Rightarrow>
          (fst (handleSave_resume (api c n) n s),
           Fetch (put_request c n) # snd (handleSave_resume (api c n) n s)))"

text \<open>The readout under the stage (lines 128 to 135).\<close>

definition normalizedValues :: "editor \<Rightarrow> norm_rect option" where
  "normalizedValues s =
     (case rect s of
        None \<Rightarrow> None
      | Some r \<Rightarrow>
          (case snapshot s of
             None \<Rightarrow> None
           | Some img \<Rightarrow>
               Some \<lparr>roi_x = js_div (rect_x r) (dim (img_width img)),
                     roi_y = js_div (rect_y r) (dim (img_height img)),
                     roi_w = js_div (rect_width r) (dim (img_width img)),
                     roi_h = js_div (rect_height r) (dim (img_height img))\<rparr>))"

subsection \<open>Camera selection and the two fetches (lines 31 to 55)\<close>

text \<open>\<^verbatim>\<open>setSelectedCameraId(c)\<close> followed by the effect hook on \<^verbatim>\<open>[selectedCameraId]\<close>. React
  skips an update to the value the cell already has, and the hook returns early for a falsy
  identifier. The result is the new state and the requests that were issued.\<close>

definition selectCamera :: "nat \<Rightarrow> editor \<Rightarrow> editor \<times> request list" where
  "selectCamera c s =
     (if selectedCameraId s = Some c then (s, [])
      else if c = 0 then (s\<lparr>selectedCameraId := Some c\<rparr>, [])
      else (s\<lparr>selectedCameraId := Some c, snapshot := None, rect := None,
               roiNormalized := None\<rparr>,
            [GetSnapshot c, GetRoi c]))"

text \<open>\<^verbatim>\<open>img.onload\<close> of \<^verbatim>\<open>fetchSnapshot\<close> (line 40) and the continuation of \<^verbatim>\<open>fetchRoi\<close>
  (line 46); each update runs the effect hook of lines 57 to 65. Neither reads
  \<^verbatim>\<open>selectedCameraId\<close>.\<close>

definition snapshotLoaded :: "image \<Rightarrow> editor \<Rightarrow> editor" where
  "snapshotLoaded img s = roiEffect (s\<lparr>snapshot := Some img\<rparr>)"

definition roiLoaded :: "norm_rect \<Rightarrow> editor \<Rightarrow> editor" where
  "roiLoaded d s = roiEffect (s\<lparr>roiNormalized := Some d\<rparr>)"

text \<open>The \<^verbatim>\<open>catch\<close> of \<^verbatim>\<open>fetchRoi\<close> (lines 47 to 51), by the status of the response, if there
  is one: the state is not written.\<close>

definition roiFailed :: "nat option \<Rightarrow> effect list" where
  "roiFailed status = (if status = Some 404 then [] else [ConsoleError ''roi load error''])"

text \<open>The loader of the camera list (lines 15 to 29), given the list it received: the first
  camera is selected.\<close>

definition camerasLoaded :: "camera list \<Rightarrow> editor \<Rightarrow> editor \<times> request list" where
  "camerasLoaded list s =
     (case list of
        [] \<Rightarrow> (s\<lparr>cameras := list\<rparr>, [])
      | cam # rest \<Rightarrow> selectCamera (cam_id cam) (s\<lparr>cameras := list\<rparr>))"

subsection \<open>Selections and responses in the order they happen\<close>

text \<open>What the server answers for a camera: the decoded snapshot, or \<open>None\<close> when the fetch
  or the decoding fails; the stored ROI, or \<open>None\<close> when there is none or the fetch fails.\<close>

record backend =
  snapshot_of :: "nat \<Rightarrow> image option"
  roi_of :: "nat \<Rightarrow> norm_rect option"

text \<open>The editor together with the requests that are in flight.\<close>

record session =
  ui :: editor
  pending :: "request list"

datatype event = Select nat | SnapshotArrives nat | RoiArrives nat

text \<open>One event. A response can only arrive for a request in flight; otherwise the event
  is not possible, which is \<open>None\<close>.\<close>

fun step :: "backend \<Rightarrow> session \<Rightarrow> event \<Rightarrow> session option" where
  "step be t (Select c) =
     Some \<lparr>ui = fst (selectCamera c (ui t)),
           pending = pending t @ snd (selectCamera c (ui t))\<rparr>"
| "step be t (SnapshotArrives c) =
     (if GetSnapshot c \<in> set (pending t)
      then Some \<lparr>ui = (case snapshot_of be c of
                         None \<Rightarrow> ui t
                       | Some img \<Rightarrow> snapshotLoaded img (ui t)),
                 pending = remove1 (GetSnapshot c) (pending t)\<rparr>
      else None)"
| "step be t (RoiArrives c) =
     (if GetRoi c \<in> set (pending t)
      then Some \<lparr>ui = (case roi_of be c of
                         None \<Rightarrow> ui t
                       | Some d \<Rightarrow> roiLoaded d (ui t)),
                 pending = remove1 (GetRoi c) (pending t)\<rparr>
      else None)"

fun run :: "backend \<Rightarrow> session \<Rightarrow> event list \<Rightarrow> session option" where
  "run be t [] = Some t"
| "run be t (e # es) = (case step be t e of None \<Rightarrow> None | Some t' \<Rightarrow> run be t' es)"

definition start :: session where
  "start = \<lparr>ui = initial, pending = []\<rparr>"

text \<open>An event is in time when it is the selection of a camera with a truthy identifier, or
  a response for the camera that is selected when it arrives.\<close>

fun in_time :: "session \<Rightarrow> event \<Rightarrow> bool" where
  "in_time t (Select c) = (c \<noteq> 0)"
| "in_time t (SnapshotArrives c) = (selectedCameraId (ui t) = Some c)"
| "in_time t (RoiArrives c) = (selectedCameraId (ui t) = Some c)"

fun all_in_time :: "backend \<Rightarrow> session \<Rightarrow> event list \<Rightarrow> bool" where
  "all_in_time be t [] = True"
| "all_in_time be t (e # es) =
     (in_time t e \<and> (case step be t e of None \<Rightarrow> False | Some t' \<Rightarrow> all_in_time be t' es))"

text \<open>The state of the editor is that of its selected camera: the snapshot and the cached
  ROI are absent or the server's for that camera, and the rectangle is absent or seeded
  from the two.\<close>

definition of_selected :: "backend \<Rightarrow> editor \<Rightarrow> bool" where
  "of_selected be s =
     (case selectedCameraId s of
        None \<Rightarrow> snapshot s = None \<and> roiNormalized s = None \<and> rect s = None
      | Some c \<Rightarrow>
          (snapshot s = None \<or> snapshot s = snapshot_of be c) \<and>
          (roiNormalized s = None \<or> roiNormalized s = roi_of be c) \<and>
          rect s = rect (roiEffect (s\<lparr>rect := None\<rparr>)))"

subsection \<open>The older single-camera editor (lines 219 to 318)\<close>

record legacy_editor =
  snapshot_legacy :: "image option"
  rect_legacy :: "pixel_rect option"

definition initial_legacy :: legacy_editor where
  "initial_legacy = \<lparr>snapshot_legacy = None, rect_legacy = None\<rparr>"

definition cameraId :: nat where
  "cameraId = 1"

definition gateId :: nat where
  "gateId = 1"

definition handleMouseDown_legacy :: "point \<Rightarrow> legacy_editor \<Rightarrow> legacy_editor" where
  "handleMouseDown_legacy p s =
     s\<lparr>rect_legacy :=
         Some \<lparr>rect_x = fst p, rect_y = snd p, rect_width = Num 0, rect_height = Num 0\<rparr>\<rparr>"

definition handleMouseMove_legacy :: "point \<Rightarrow> legacy_editor \<Rightarrow> legacy_editor" where
  "handleMouseMove_legacy p s =
     (case rect_legacy s of
        None \<Rightarrow> s
      | Some r \<Rightarrow>
          s\<lparr>rect_legacy := Some (r\<lparr>rect_width := js_sub (fst p) (rect_x r),
                                    rect_height := js_sub (snd p) (rect_y r)\<rparr>)\<rparr>)"

definition handleMouseUp_legacy :: "legacy_editor \<Rightarrow> legacy_editor" where
  "handleMouseUp_legacy s = s"

fun pointer_event_legacy :: "legacy_editor \<Rightarrow> pointer \<Rightarrow> legacy_editor" where
  "pointer_event_legacy s (Down p) = handleMouseDown_legacy p s"
| "pointer_event_legacy s (Move p) = handleMouseMove_legacy p s"
| "pointer_event_legacy s Up = handleMouseUp_legacy s"

definition gesture_legacy :: "legacy_editor \<Rightarrow> pointer list \<Rightarrow> legacy_editor" where
  "gesture_legacy s es = foldl pointer_event_legacy s es"

text \<open>\<^verbatim>\<open>handleSave\<close> of the older editor up to its \<^verbatim>\<open>await\<close> (lines 254 to 265): \<open>None\<close> when
  it returns at once, or the request it is suspended at.\<close>

definition handleSave_legacy :: "legacy_editor \<Rightarrow> request option" where
  "handleSave_legacy s =
     (case rect_legacy s of
        None \<Rightarrow> None
      | Some r \<Rightarrow>
          Some (PostRois gateId cameraId ''rectangle''
                  [(rect_x r, rect_y r),
                   (js_add (rect_x r) (rect_width r), js_add (rect_y r) (rect_height r))]))"

text \<open>A whole save of the older editor: there is no \<^verbatim>\<open>try\<close>, so a failed request rejects the
  promise of the handler. The state is never written.\<close>

definition save_legacy :: "(request \<Rightarrow> reply) \<Rightarrow> legacy_editor \<Rightarrow> legacy_editor \<times> effect list" where
  "save_legacy api s =
     (case handleSave_legacy s of
        None \<Rightarrow> (s, [])
      | Some q \<Rightarrow>
          (s, Fetch q # (case api q of Ack \<Rightarrow> [Alert ''ROI saved''] | Failed detail \<Rightarrow> [Unhandled])))"

text \<open>What can happen to the older editor: its snapshot is decoded (line 237), or the
  pointer acts on the stage, which is only rendered once there is a snapshot (line 282).\<close>

datatype legacy_event = Loaded image | Pointer pointer

fun step_legacy :: "legacy_editor \<Rightarrow> legacy_event \<Rightarrow> legacy_editor" where
  "step_legacy s (Loaded img) = s\<lparr>snapshot_legacy := Some img\<rparr>"
| "step_legacy s (Pointer p) =
     (case snapshot_legacy s of None \<Rightarrow> s | Some img \<Rightarrow> pointer_event_legacy s p)"

definition run_legacy :: "legacy_event list \<Rightarrow> legacy_editor" where
  "run_legacy es = foldl step_legacy initial_legacy es"

subsection \<open>Example inputs\<close>

definition snap800 :: image where
  "snap800 = \<lparr>img_width = 800, img_height = 600, img_src = ''blob:camera-1''\<rparr>"

definition snap640 :: image where
  "snap640 = \<lparr>img_width = 640, img_height = 480, img_src = ''blob:camera-2''\<rparr>"

definition eighth_quarter :: norm_rect where
  "eighth_quarter =
     \<lparr>roi_x = Num (1 / 8), roi_y = Num (1 / 8), roi_w = Num (1 / 4), roi_h = Num (1 / 4)\<rparr>"

text \<open>Camera 1 has a snapshot of 800 by 600 and a stored ROI, camera 2 a snapshot of 640 by
  480 and no ROI.\<close>

definition two_cameras :: backend where
  "two_cameras =
     \<lparr>snapshot_of = (\<lambda>c. if c = 1 then Some snap800 else if c = 2 then Some snap640 else None),
      roi_of = (\<lambda>c. if c = 1 then Some eighth_quarter else None)\<rparr>"

definition stale_trace :: "event list" where
  "stale_trace =
     [Select 1, Select 2, SnapshotArrives 2, RoiArrives 2, SnapshotArrives 1, RoiArrives 1]"

definition timely_trace :: "event list" where
  "timely_trace = [Select 1, Select 2, SnapshotArrives 2, RoiArrives 2]"

definition drawn_rect :: pixel_rect where
  "drawn_rect =
     \<lparr>rect_x = Num 100, rect_y = Num 75, rect_width = Num 200, rect_height = Num 150\<rparr>"

text \<open>Camera 1 is selected, its snapshot is loaded and a rectangle is drawn.\<close>

definition drawn :: editor where
  "drawn =
     \<lparr>cameras = [], selectedCameraId = Some 1, snapshot = Some snap800,
      rect = Some drawn_rect, isDrawing = False, roiNormalized = None\<rparr>"

text \<open>A rectangle that starts left of the image, one of no width, and one that ends right
  of the image.\<close>

definition left_of_image :: norm_rect where
  "left_of_image =
     \<lparr>roi_x = Num (- (1 / 8)), roi_y = Num 0, roi_w = Num (1 / 4), roi_h = Num (1 / 4)\<rparr>"

definition no_width :: norm_rect where
  "no_width = \<lparr>roi_x = Num 0, roi_y = Num 0, roi_w = Num 0, roi_h = Num (1 / 4)\<rparr>"

definition too_wide :: norm_rect where
  "too_wide =
     \<lparr>roi_x = Num (7 / 8), roi_y = Num (1 / 8), roi_w = Num (1 / 4), roi_h = Num (1 / 8)\<rparr>"

text \<open>The binary64 values nearest to \<open>0.1\<close>, \<open>0.9\<close> and \<open>0.7\<close>.\<close>

definition tenth :: real where
  "tenth = 3602879701896397 / 2 ^ 55"

definition nine_tenths :: real where
  "nine_tenths = 8106479329266893 / 2 ^ 53"

definition seven_tenths :: real where
  "seven_tenths = 3152519739159347 / 2 ^ 52"

text \<open>The normalized rectangle of the pixel rectangle \<open>{80, 0, 720, 600}\<close> on a snapshot of
  800 by 600.\<close>

definition full_width :: norm_rect where
  "full_width = \<lparr>roi_x = Num tenth, roi_y = Num 0, roi_w = Num nine_tenths, roi_h = Num 1\<rparr>"

definition wide_rect :: pixel_rect where
  "wide_rect =
     \<lparr>rect_x = Num 80, rect_y = Num 0, rect_width = Num 720, rect_height = Num 600\<rparr>"

definition wide :: editor where
  "wide =
     \<lparr>cameras = [], selectedCameraId = Some 1, snapshot = Some snap800,
      rect = Some wide_rect, isDrawing = False, roiNormalized = None\<rparr>"

text \<open>A rectangle dragged from \<open>x = 0.7\<close> to the left by \<open>4.5\<close>.\<close>

definition dragged_left :: pixel_rect where
  "dragged_left =
     \<lparr>rect_x = Num seven_tenths, rect_y = Num 0, rect_width = Num (- (9 / 2)),
      rect_height = Num 0\<rparr>"

definition loaded_legacy :: legacy_editor where
  "loaded_legacy = \<lparr>snapshot_legacy = Some snap800, rect_legacy = None\<rparr>"

definition drawn_legacy :: legacy_editor where
  "drawn_legacy = \<lparr>snapshot_legacy = Some snap800, rect_legacy = Some drawn_rect\<rparr>"

section \<open>Properties\<close>

subsection \<open>Rounding\<close>

lemma rne_err: "\<bar>of_int (rne y) - y\<bar> \<le> 1/2"
  unfolding rne_def Let_def by (auto simp: abs_if) linarith+

lemma bits_bounds: "0 < n \<Longrightarrow> 2 ^ (bits n - 1) \<le> n \<and> n < 2 ^ bits n"
proof (induction n rule: bits.induct)
  case (1 n)
  show ?case
  proof (cases "n div 2 = 0")
    case True
    with "1.prems" have "n = 1" by (simp add: div_eq_0_iff) 
    then show ?thesis by (simp add: bits.simps)
  next
    case False
    then have pos: "0 < n div 2" by simp
    with "1.prems" "1.IH" have ih: "2 ^ (bits (n div 2) - 1) \<le> n div 2" "n div 2 < 2 ^ bits (n div 2)"
      by auto
    have b: "bits n = Suc (bits (n div 2))" using "1.prems" by (subst bits.simps) simp
    have bp: "0 < bits (n div 2)" using pos by (subst bits.simps) simp
    have "2 * 2 ^ (bits (n div 2) - 1) \<le> 2 * (n div 2)" using ih(1) by simp
    also have "\<dots> \<le> n" by simp
    finally have lo: "2 ^ (bits n - 1) \<le> n" using b bp
      by (metis Suc_pred diff_Suc_1 power_Suc)
    have "n < 2 * (n div 2) + 2" by presburger
    also have "\<dots> \<le> 2 * 2 ^ bits (n div 2)" using ih(2) by simp
    finally have hi: "n < 2 ^ bits n" using b by simp
    from lo hi show ?thesis ..
  qed
qed

lemma expo_bounds:
  assumes "v \<noteq> 0"
  shows "2 powi expo v \<le> \<bar>v\<bar>" and "\<bar>v\<bar> < 2 powi (expo v + 1)"
proof -
  have "2 powi expo v \<le> \<bar>v\<bar> \<and> \<bar>v\<bar> < 2 powi (expo v + 1)"
  proof (cases "1 \<le> \<bar>v\<bar>")
    case True
    define n where "n = nat \<lfloor>\<bar>v\<bar>\<rfloor>"
    have n: "0 < n" using True by (simp add: n_def)
    have e: "expo v = int (bits n) - 1" using True by (simp add: expo_def n_def)
    from bits_bounds[OF n] have b: "2 ^ (bits n - 1) \<le> n" "n < 2 ^ bits n" by auto
    have bp: "0 < bits n" using n by (subst bits.simps) simp
    have rn: "real n \<le> \<bar>v\<bar>" "\<bar>v\<bar> < real n + 1"
      using True by (simp_all add: n_def) linarith?
    have "(2::real) ^ (bits n - 1) \<le> real n" using b(1)
      by (metis of_nat_le_iff of_nat_numeral of_nat_power)
    with rn have lo: "(2::real) ^ (bits n - 1) \<le> \<bar>v\<bar>" by linarith
    have "n + 1 \<le> 2 ^ bits n" using b(2) by simp
    then have "real (n + 1) \<le> 2 ^ bits n"
      by (metis of_nat_le_iff of_nat_numeral of_nat_power)
    with rn have hi: "\<bar>v\<bar> < 2 ^ bits n" by simp
    have e1: "expo v = int (bits n - 1)" using e bp by simp
    have e2: "expo v + 1 = int (bits n)" using e by simp
    show ?thesis unfolding e2 unfolding e1 using lo hi by (simp only: power_int_of_nat) 
  next
    case False
    define y where "y = 1 / \<bar>v\<bar>"
    have v: "0 < \<bar>v\<bar>" "\<bar>v\<bar> < 1" using assms False by simp_all
    then have y: "1 < y" by (simp add: y_def)
    define m where "m = nat (\<lceil>y\<rceil> - 1)"
    have c: "2 \<le> \<lceil>y\<rceil>" using y by linarith
    then have m: "0 < m" by (simp add: m_def)
    have e: "expo v = - int (bits m)" using False by (simp add: expo_def m_def y_def)
    from bits_bounds[OF m] have b: "2 ^ (bits m - 1) \<le> m" "m < 2 ^ bits m" by auto
    have bp: "0 < bits m" using m by (subst bits.simps) simp
    have rm: "real m < y" "y \<le> real m + 1"
      using c by (simp_all add: m_def) linarith?
    have "m + 1 \<le> 2 ^ bits m" using b(2) by simp
    then have "real (m + 1) \<le> 2 ^ bits m"
      by (metis of_nat_le_iff of_nat_numeral of_nat_power)
    with rm have yhi: "y \<le> 2 ^ bits m" by simp
    have "(2::real) ^ (bits m - 1) \<le> real m" using b(1)
      by (metis of_nat_le_iff of_nat_numeral of_nat_power)
    with rm have ylo: "(2::real) ^ (bits m - 1) < y" by linarith
    have vy: "\<bar>v\<bar> = 1 / y" using v by (simp add: y_def)
    have lo: "1 / 2 ^ bits m \<le> \<bar>v\<bar>" unfolding vy using yhi y
      by (simp add: frac_le)
    have hi: "\<bar>v\<bar> < 1 / 2 ^ (bits m - 1)" unfolding vy using ylo y
      by (simp add: frac_less2)
    have p1: "(2::real) powi expo v = 1 / 2 ^ bits m"
      unfolding e by (simp add: power_int_minus field_simps)
    have "expo v + 1 = - int (bits m - 1)" using e bp by simp
    then have p2: "(2::real) powi (expo v + 1) = 1 / 2 ^ (bits m - 1)"
      by (simp add: power_int_minus field_simps)
    from lo hi show ?thesis unfolding p1 p2 ..
  qed
  then show "2 powi expo v \<le> \<bar>v\<bar>" and "\<bar>v\<bar> < 2 powi (expo v + 1)" by simp_all
qed

text \<open>So \<open>expo\<close> is the integer part of the binary logarithm.\<close>

lemma floor_log2_eq:
  assumes "2 powi k \<le> v" "v < 2 powi (k + 1)"
  shows "\<lfloor>log 2 v\<rfloor> = k"
proof -
  have "0 < (2::real) powi k" by simp
  with assms have v: "0 < v" by linarith
  have "2 powr real_of_int k \<le> v \<and> v < 2 powr real_of_int (k + 1)"
    using assms by (simp only: powr_real_of_int' zero_le_numeral numeral_neq_zero
        simp_thms not_False_eq_True)
  moreover have "(1::real) < 2" by simp
  ultimately show ?thesis
    using floor_log_eq_powr_iff[OF v, of 2 k] by blast
qed

lemma expo_is_floor_log:
  assumes v: "v \<noteq> 0"
  shows "expo v = \<lfloor>log 2 \<bar>v\<bar>\<rfloor>"
proof -
  from v have p: "0 < \<bar>v\<bar>" by simp
  have "(1::real) < 2" by simp
  from expo_bounds[OF v]
  have "2 powr real_of_int (expo v) \<le> \<bar>v\<bar> \<and> \<bar>v\<bar> < 2 powr real_of_int (expo v + 1)"
    by (simp only: powr_real_of_int' zero_le_numeral numeral_neq_zero simp_thms not_False_eq_True)
  then show ?thesis
    using floor_log_eq_powr_iff[OF p \<open>1 < 2\<close>, of "expo v"] by simp
qed

lemma expo_unique:
  assumes "2 powi k \<le> \<bar>v\<bar>" "\<bar>v\<bar> < 2 powi (k + 1)"
  shows "expo v = k"
proof -
  have "0 < (2::real) powi k" by simp
  with assms(1) have "0 < \<bar>v\<bar>" by linarith
  then have "v \<noteq> 0" by simp
  then show ?thesis using floor_log2_eq[OF assms] by (simp add: expo_is_floor_log)
qed





lemma rne_of_int [simp]: "rne (of_int k) = k"
  by (simp add: rne_def)

lemma rne_mono: "a \<le> b \<Longrightarrow> rne a \<le> rne b"
proof -
  assume ab: "a \<le> b"
  have fa: "\<lfloor>a\<rfloor> \<le> \<lfloor>b\<rfloor>" using ab by (rule floor_mono)
  show ?thesis
  proof (cases "\<lfloor>a\<rfloor> = \<lfloor>b\<rfloor>")
    case True
    with ab show ?thesis unfolding rne_def Let_def by auto
  next
    case False
    with fa have "\<lfloor>a\<rfloor> + 1 \<le> \<lfloor>b\<rfloor>" by simp
    moreover have "rne a \<le> \<lfloor>a\<rfloor> + 1" unfolding rne_def Let_def by auto
    moreover have "\<lfloor>b\<rfloor> \<le> rne b" unfolding rne_def Let_def by auto
    ultimately show ?thesis by linarith
  qed
qed

lemma rne_le_int: "y \<le> of_int k \<Longrightarrow> rne y \<le> k"
  using rne_mono[of y "of_int k"] by simp

lemma rne_ge_int: "of_int k \<le> y \<Longrightarrow> k \<le> rne y"
  using rne_mono[of "of_int k" y] by simp

lemma rne_minus: "rne (- y) = - rne y"
proof (cases "y \<in> \<int>")
  case True
  then obtain k where "y = of_int k" by (auto elim: Ints_cases)
  then have "- y = of_int (- k)" by simp
  then show ?thesis using \<open>y = of_int k\<close> by (simp only: rne_of_int)
next
  case False
  then have ne: "y \<noteq> of_int \<lfloor>y\<rfloor>" by (metis Ints_of_int)
  then have f: "\<lfloor>- y\<rfloor> = - \<lfloor>y\<rfloor> - 1"
    by (simp add: floor_minus ceiling_altdef)
  have "of_int \<lfloor>y\<rfloor> \<le> y" by simp
  with ne have d: "0 < y - of_int \<lfloor>y\<rfloor>" by linarith
  show ?thesis
    unfolding rne_def Let_def f using d by auto
qed

lemma expo_minus [simp]: "expo (- v) = expo v"
  by (simp add: expo_def)

lemma binary64_minus: "binary64 (- v) = - binary64 v"
  by (simp add: binary64_def Let_def rne_minus)

lemma binary64_zero [simp]: "binary64 0 = 0"
  by (simp add: binary64_def)

lemma binary64_nonneg: "0 \<le> v \<Longrightarrow> 0 \<le> binary64 v"
proof -
  assume v: "0 \<le> v"
  have "0 \<le> rne (v / 2 powi e)" for e :: int
    using v by (intro rne_ge_int) simp
  then show ?thesis by (simp add: binary64_def Let_def)
qed

lemma binary64_nonpos: "v \<le> 0 \<Longrightarrow> binary64 v \<le> 0"
  using binary64_nonneg[of "- v"] by (simp add: binary64_minus)

lemma expo_mono:
  assumes "0 < u" "u \<le> v"
  shows "expo u \<le> expo v"
proof -
  have "log 2 u \<le> log 2 v" using assms by simp
  then have "\<lfloor>log 2 u\<rfloor> \<le> \<lfloor>log 2 v\<rfloor>" by (rule floor_mono)
  then show ?thesis using assms by (simp add: expo_is_floor_log)
qed


lemma pow2_int: "0 \<le> k \<Longrightarrow> (2::real) powi k = of_int (2 ^ nat k)"
  by (simp add: power_int_nonneg_exp)

lemma binary64_pos_upper:
  assumes "0 < u"
  shows "binary64 u \<le> 2 powi (max (expo u + 1) (- 1074))"
proof -
  define e where "e = max (expo u - 52) (- 1074)"
  define t where "t = max (expo u + 1) (- 1074)"
  have te: "0 \<le> t - e" by (simp add: t_def e_def)
  have p: "0 < (2::real) powi e" by simp
  have u: "u \<noteq> 0" using assms by simp
  from expo_bounds(2)[OF u] assms have "u < 2 powi (expo u + 1)" by simp
  also have "\<dots> \<le> 2 powi t" by (rule power_int_increasing) (simp_all add: t_def)
  finally have "u / 2 powi e \<le> 2 powi t / 2 powi e"
    using p by (simp add: divide_right_mono)
  also have "\<dots> = 2 powi (t - e)" by (simp add: power_int_diff)
  also have "\<dots> = of_int (2 ^ nat (t - e))" using te by (rule pow2_int)
  finally have "rne (u / 2 powi e) \<le> 2 ^ nat (t - e)" by (rule rne_le_int)
  then have "real_of_int (rne (u / 2 powi e)) \<le> real_of_int (2 ^ nat (t - e))"
    by (simp only: of_int_le_iff)
  then have "real_of_int (rne (u / 2 powi e)) * 2 powi e \<le> real_of_int (2 ^ nat (t - e)) * 2 powi e"
    using p by (simp add: mult_right_mono)
  also have "\<dots> = 2 powi (t - e) * 2 powi e" using pow2_int[OF te] by simp
  also have "\<dots> = 2 powi t" by (simp add: power_int_diff)
  finally show ?thesis using u by (simp add: binary64_def Let_def e_def t_def)
qed

lemma binary64_pos_lower:
  assumes "0 < v" "- 1074 \<le> expo v - 52"
  shows "2 powi expo v \<le> binary64 v"
proof -
  define e where "e = expo v - 52"
  have p: "0 < (2::real) powi e" by simp
  have v: "v \<noteq> 0" using assms by simp
  have s: "max (expo v - 52) (- 1074) = e" using assms(2) by (simp add: e_def)
  have "real_of_int (2 ^ 52) = 2 powi (expo v - e)" by (simp add: e_def)
  also have "\<dots> = 2 powi expo v / 2 powi e" by (simp add: power_int_diff)
  also have "\<dots> \<le> v / 2 powi e"
    using expo_bounds(1)[OF v] assms(1) p by (simp add: divide_right_mono)
  finally have "2 ^ 52 \<le> rne (v / 2 powi e)" by (rule rne_ge_int)
  then have "real_of_int (2 ^ 52) \<le> real_of_int (rne (v / 2 powi e))"
    by (simp only: of_int_le_iff)
  then have "real_of_int (2 ^ 52) * 2 powi e \<le> real_of_int (rne (v / 2 powi e)) * 2 powi e"
    using p by (simp add: mult_right_mono)
  moreover have "real_of_int (2 ^ 52) * 2 powi e = 2 powi expo v"
  proof -
    have "real_of_int (2 ^ 52) * 2 powi e = 2 powi 52 * 2 powi e" by simp
    also have "\<dots> = 2 powi (52 + e)" by (simp add: power_int_add)
    finally show ?thesis by (simp add: e_def)
  qed
  ultimately have "2 powi expo v \<le> real_of_int (rne (v / 2 powi e)) * 2 powi e" by linarith
  then show ?thesis using v s unfolding binary64_def Let_def by simp
qed

lemma binary64_mono_pos:
  assumes "0 < u" "u \<le> v"
  shows "binary64 u \<le> binary64 v"
proof -
  define eu where "eu = max (expo u - 52) (- 1074)"
  define ev where "ev = max (expo v - 52) (- 1074)"
  have v: "0 < v" using assms by simp
  have ex: "expo u \<le> expo v" using assms by (rule expo_mono)
  show ?thesis
  proof (cases "eu = ev")
    case True
    have p: "0 < (2::real) powi ev" by simp
    have "u / 2 powi ev \<le> v / 2 powi ev" using assms(2) p by (simp add: divide_right_mono)
    then have "rne (u / 2 powi ev) \<le> rne (v / 2 powi ev)" by (rule rne_mono)
    then have "real_of_int (rne (u / 2 powi ev)) \<le> real_of_int (rne (v / 2 powi ev))"
      by (simp only: of_int_le_iff)
    then have "real_of_int (rne (u / 2 powi ev)) * 2 powi ev \<le> real_of_int (rne (v / 2 powi ev)) * 2 powi ev"
      using p by (simp add: mult_right_mono)
    then show ?thesis
      using assms(1) v True by (simp add: binary64_def Let_def eu_def ev_def)
  next
    case False
    with ex have lt: "expo u < expo v" and big: "- 1074 < expo v - 52"
      by (auto simp: eu_def ev_def max_def split: if_splits)
    have "binary64 u \<le> 2 powi (max (expo u + 1) (- 1074))"
      using assms(1) by (rule binary64_pos_upper)
    also have "\<dots> \<le> 2 powi expo v"
      by (rule power_int_increasing) (use lt big in simp_all)
    also have "\<dots> \<le> binary64 v"
      by (rule binary64_pos_lower) (use v big in simp_all)
    finally show ?thesis .
  qed
qed

lemma binary64_mono:
  assumes "u \<le> v"
  shows "binary64 u \<le> binary64 v"
proof -
  consider "0 < u" | "u \<le> 0" "0 \<le> v" | "v < 0" using assms by linarith
  then show ?thesis
  proof cases
    case 1
    then show ?thesis using assms by (rule binary64_mono_pos)
  next
    case 2
    from binary64_nonpos[OF 2(1)] binary64_nonneg[OF 2(2)] show ?thesis by linarith
  next
    case 3
    then have "0 < - v" "- v \<le> - u" using assms by simp_all
    from binary64_mono_pos[OF this] show ?thesis by (simp add: binary64_minus)
  qed
qed

lemma binary64_of_int:
  assumes "\<bar>n\<bar> < 2 ^ 53"
  shows "binary64 (of_int n) = of_int n"
proof (cases "n = 0")
  case True
  then show ?thesis by simp
next
  case False
  define v :: real where "v = of_int n"
  define e where "e = max (expo v - 52) (- 1074)"
  have v0: "v \<noteq> 0" using False by (simp add: v_def)
  have a1: "1 \<le> \<bar>v\<bar>" using False by (simp add: v_def) 
  have "\<bar>v\<bar> < 2 ^ 53"
  proof -
    have "real_of_int \<bar>n\<bar> < real_of_int (2 ^ 53)" using assms by (simp only: of_int_less_iff)
    then show ?thesis by (simp add: v_def)
  qed
  then have a2: "\<bar>v\<bar> < 2 powi 53" by simp
  from expo_bounds(1)[OF v0] a2 have "(2::real) powi expo v < 2 powi 53" by linarith
  then have hi: "expo v < 53" by (rule power_int_le_imp_less_exp[rotated]) simp_all
  from expo_bounds(2)[OF v0] a1 have "(2::real) powi 0 < 2 powi (expo v + 1)" by simp
  then have "0 < expo v + 1"
    by (metis power_int_strict_increasing not_less power_int_increasing one_le_numeral
        linorder_not_le order.strict_iff_not)
  then have lo: "0 \<le> expo v" by simp
  have e: "e = expo v - 52" using lo by (simp add: e_def)
  have ne: "0 \<le> - e" using hi e by simp
  have "v / 2 powi e = v * 2 powi (- e)" by (simp add: power_int_minus field_simps)
  also have "\<dots> = of_int n * of_int (2 ^ nat (- e))"
    using pow2_int[OF ne] by (simp add: v_def)
  also have "\<dots> = of_int (n * 2 ^ nat (- e))" by simp
  finally have "rne (v / 2 powi e) = n * 2 ^ nat (- e)" by (simp only: rne_of_int)
  then have "real_of_int (rne (v / 2 powi e)) * 2 powi e =
      real_of_int n * (real_of_int (2 ^ nat (- e)) * 2 powi e)"
    by simp
  also have "real_of_int (2 ^ nat (- e)) * 2 powi e = (2::real) powi (- e) * 2 powi e"
    using pow2_int[OF ne] by simp
  also have "\<dots> = 1" by (simp add: power_int_minus)
  finally have "real_of_int (rne (v / 2 powi e)) * 2 powi e = v" by (simp add: v_def)
  then show ?thesis using v0 unfolding binary64_def Let_def e_def v_def by simp
qed

lemma binary64_one [simp]: "binary64 1 = 1"
  using binary64_of_int[of 1] by simp

lemma binary64_two [simp]: "binary64 2 = 2"
  using binary64_of_int[of 2] by simp


lemma expo_between_one_and_two:
  assumes "1 \<le> s" "s < 2"
  shows "expo s = 0"
  by (rule expo_unique) (use assms in simp_all)

lemma binary64_between_one_and_two:
  assumes "1 \<le> s" "s < 2"
  shows "binary64 s = real_of_int (rne (s * 2 ^ 52)) / 2 ^ 52"
proof -
  have "s \<noteq> 0" using assms by simp
  then show ?thesis
    using expo_between_one_and_two[OF assms]
    by (simp add: binary64_def Let_def power_int_minus field_simps)
qed

lemma binary64_le_one:
  assumes "s \<le> 1 + 1 / 2 ^ 53"
  shows "binary64 s \<le> 1"
proof (cases "s \<le> 1")
  case True
  from binary64_mono[OF this] show ?thesis by simp
next
  case False
  then have s: "1 \<le> s" "s < 2" using assms by simp_all
  define y where "y = s * 2 ^ 52"
  have y: "2 ^ 52 < y" "y \<le> 2 ^ 52 + 1 / 2"
    using False assms by (simp_all add: y_def field_simps)
  then have f: "\<lfloor>y\<rfloor> = 2 ^ 52" by (intro floor_unique) simp_all
  have "rne y = 2 ^ 52"
    unfolding rne_def Let_def f using y by simp
  then show ?thesis
    using binary64_between_one_and_two[OF s] by (simp add: y_def)
qed

lemma binary64_gt_one:
  assumes "1 + 1 / 2 ^ 53 < s"
  shows "1 + 1 / 2 ^ 52 \<le> binary64 s"
proof (cases "s < 2")
  case True
  have s: "1 \<le> s" using assms by (simp add: add_pos_pos less_imp_le order_less_le_trans)
  define y where "y = s * 2 ^ 52"
  have y: "2 ^ 52 + 1 / 2 < y"
    using assms by (simp add: y_def field_simps)
  have "\<bar>real_of_int (rne y) - y\<bar> \<le> 1 / 2" by (rule rne_err)
  with y have "(2::real) ^ 52 < real_of_int (rne y)" by linarith
  then have "real_of_int (2 ^ 52) < real_of_int (rne y)" by simp
  then have "2 ^ 52 < rne y" by (simp only: of_int_less_iff)
  then have "2 ^ 52 + 1 \<le> rne y" by simp
  then have "real_of_int (2 ^ 52 + 1) \<le> real_of_int (rne y)" by (simp only: of_int_le_iff)
  then show ?thesis
    using binary64_between_one_and_two[OF s True] by (simp add: y_def field_simps)
next
  case False
  then have "2 \<le> s" by simp
  from binary64_mono[OF this] show ?thesis by simp
qed

lemma binary64_le_one_iff: "binary64 s \<le> 1 \<longleftrightarrow> s \<le> 1 + 1 / 2 ^ 53"
proof
  assume "binary64 s \<le> 1"
  show "s \<le> 1 + 1 / 2 ^ 53"
  proof (rule ccontr)
    assume "\<not> s \<le> 1 + 1 / 2 ^ 53"
    then have "1 + 1 / 2 ^ 53 < s" by simp
    from binary64_gt_one[OF this] \<open>binary64 s \<le> 1\<close> show False by simp
  qed
qed (rule binary64_le_one)

text \<open>No value lies strictly between \<open>1\<close> and \<open>1 + 2 powi - 52\<close>.\<close>

lemma binary64_grid_at_one: "binary64 s \<le> 1 \<or> 1 + 1 / 2 ^ 52 \<le> binary64 s"
  using binary64_le_one[of s] binary64_gt_one[of s] by linarith


lemma pow2_less_cancel: "(2::real) powi a < 2 powi b \<Longrightarrow> a < b"
proof (rule ccontr)
  assume l: "(2::real) powi a < 2 powi b" and "\<not> a < b"
  then have "b \<le> a" by simp
  then have "(2::real) powi b \<le> 2 powi a" by (rule power_int_increasing) simp
  with l show False by simp
qed

text \<open>A value with a significand below \<open>2 ^ 53\<close> and an exponent in range is its own
  rounding.\<close>

lemma binary64_fixed:
  assumes m: "\<bar>m\<bar> < 2 ^ 53" and e: "- 1074 \<le> e"
  shows "binary64 (real_of_int m * 2 powi e) = real_of_int m * 2 powi e"
proof (cases "m = 0")
  case True
  then show ?thesis by simp
next
  case False
  define r where "r = real_of_int m * 2 powi e"
  define k where "k = max (expo r - 52) (- 1074)"
  have r0: "r \<noteq> 0" using False by (simp add: r_def)
  have "real_of_int \<bar>m\<bar> < real_of_int (2 ^ 53)" using m by (simp only: of_int_less_iff)
  then have "\<bar>real_of_int m\<bar> < 2 powi 53" by simp
  then have "\<bar>r\<bar> < 2 powi 53 * 2 powi e"
    by (simp add: r_def abs_mult)
  also have "\<dots> = 2 powi (53 + e)" by (simp add: power_int_add)
  finally have "\<bar>r\<bar> < 2 powi (53 + e)" .
  with expo_bounds(1)[OF r0] have "(2::real) powi expo r < 2 powi (53 + e)" by linarith
  then have "expo r < 53 + e" by (rule pow2_less_cancel)
  then have ke: "k \<le> e" using e by (simp add: k_def)
  then have d: "0 \<le> e - k" by simp
  have "r / 2 powi k = real_of_int m * (2 powi e / 2 powi k)" by (simp add: r_def)
  also have "2 powi e / 2 powi k = (2::real) powi (e - k)" by (simp add: power_int_diff)
  also have "\<dots> = real_of_int (2 ^ nat (e - k))" using d by (rule pow2_int)
  also have "real_of_int m * real_of_int (2 ^ nat (e - k)) = real_of_int (m * 2 ^ nat (e - k))"
    by simp
  finally have "rne (r / 2 powi k) = m * 2 ^ nat (e - k)" by (simp only: rne_of_int)
  then have "real_of_int (rne (r / 2 powi k)) * 2 powi k =
      real_of_int m * (real_of_int (2 ^ nat (e - k)) * 2 powi k)" by simp
  also have "real_of_int (2 ^ nat (e - k)) * 2 powi k = (2::real) powi (e - k) * 2 powi k"
    using pow2_int[OF d] by simp
  also have "\<dots> = 2 powi e" by (simp add: power_int_diff)
  finally have "real_of_int (rne (r / 2 powi k)) * 2 powi k = r" by (simp add: r_def)
  then have "binary64 r = r" using r0 unfolding binary64_def Let_def k_def by simp
  then show ?thesis by (simp add: r_def)
qed

text \<open>Rounding twice is rounding once.\<close>

lemma binary64_idem: "binary64 (binary64 v) = binary64 v"
proof (cases "v = 0")
  case True
  then show ?thesis by simp
next
  case False
  define e where "e = max (expo v - 52) (- 1074)"
  define m where "m = rne (v / 2 powi e)"
  have b: "binary64 v = real_of_int m * 2 powi e"
    using False by (simp add: binary64_def Let_def e_def m_def)
  have e: "- 1074 \<le> e" by (simp add: e_def)
  have p: "0 < (2::real) powi e" by simp
  have "\<bar>v\<bar> < 2 powi (expo v + 1)" using expo_bounds(2)[OF False] .
  also have "\<dots> \<le> 2 powi (53 + e)"
    by (rule power_int_increasing) (simp_all add: e_def)
  also have "\<dots> = 2 powi 53 * 2 powi e" by (simp add: power_int_add)
  finally have "\<bar>v\<bar> / 2 powi e < 2 powi 53" using p by (simp add: field_simps)
  moreover define y where "y = v / 2 powi e"
  moreover have "\<bar>y\<bar> = \<bar>v\<bar> / 2 powi e" using p by (simp add: y_def abs_divide)
  ultimately have q: "\<bar>y\<bar> < 2 ^ 53" by simp
  have i: "real_of_int (2 ^ 53) = 2 ^ 53" "real_of_int (- (2 ^ 53)) = - (2 ^ 53)" by simp_all
  have yb: "y \<le> real_of_int (2 ^ 53)" "real_of_int (- (2 ^ 53)) \<le> y"
    unfolding i using q by linarith+
  have mb: "m \<le> 2 ^ 53" "- (2 ^ 53) \<le> m"
    using rne_le_int[OF yb(1)] rne_ge_int[OF yb(2)] by (simp_all add: m_def y_def)
  show ?thesis
  proof (cases "\<bar>m\<bar> < 2 ^ 53")
    case True
    from binary64_fixed[OF True e] show ?thesis by (simp add: b)
  next
    case False
    with mb have "m = 2 ^ 53 \<or> m = - (2 ^ 53)" by linarith
    then have "real_of_int m * 2 powi e = real_of_int (m div 2) * 2 powi (e + 1)"
      by (auto simp: power_int_add)
    moreover have "\<bar>m div 2\<bar> < 2 ^ 53" using \<open>m = 2 ^ 53 \<or> m = - (2 ^ 53)\<close> by auto
    moreover have "- 1074 \<le> e + 1" using e by simp
    ultimately show ?thesis using binary64_fixed[of "m div 2" "e + 1"] by (simp add: b)
  qed
qed

subsection \<open>Numbers\<close>

lemma round64_cases:
  obtains "round64 v = Infinity" "2 ^ 1024 \<le> binary64 v"
  | "round64 v = MinusInfinity" "binary64 v \<le> - (2 ^ 1024)"
  | "round64 v = Num (binary64 v)" "\<bar>binary64 v\<bar> < 2 ^ 1024"
  unfolding round64_def by (cases "2 ^ 1024 \<le> binary64 v"; cases "binary64 v \<le> - (2 ^ 1024)") auto

lemma round64_Num: "\<bar>binary64 v\<bar> < 2 ^ 1024 \<Longrightarrow> round64 v = Num (binary64 v)"
  by (auto simp: round64_def)

lemma round64_eq_Num: "round64 v = Num x \<Longrightarrow> x = binary64 v"
  by (auto simp: round64_def split: if_splits)

lemma round64_of_int:
  assumes "\<bar>n\<bar> < 2 ^ 53"
  shows "round64 (real_of_int n) = Num (real_of_int n)"
proof -
  have "real_of_int \<bar>n\<bar> < real_of_int (2 ^ 53)" using assms by (simp only: of_int_less_iff)
  then have "\<bar>real_of_int n\<bar> < 2 ^ 53" by simp
  moreover have "(2::real) ^ 53 < 2 ^ 1024" by simp
  ultimately have "\<bar>real_of_int n\<bar> < 2 ^ 1024" by linarith
  then show ?thesis using binary64_of_int[OF assms] by (simp add: round64_Num)
qed

lemma round64_zero [simp]: "round64 0 = Num 0"
  using round64_of_int[of 0] by simp

lemma round64_one [simp]: "round64 1 = Num 1"
  using round64_of_int[of 1] by simp

lemma round64_numeral [simp]:
  "numeral k < (2::int) ^ 53 \<Longrightarrow> round64 (numeral k) = Num (numeral k)"
  using round64_of_int[of "numeral k"] by simp

lemma round64_fixed:
  assumes "\<bar>m\<bar> < 2 ^ 53" "- 1074 \<le> e" "e \<le> 970"
  shows "round64 (real_of_int m * 2 powi e) = Num (real_of_int m * 2 powi e)"
proof -
  have "real_of_int \<bar>m\<bar> < real_of_int (2 ^ 53)" using assms(1) by (simp only: of_int_less_iff)
  then have a: "\<bar>real_of_int m\<bar> < 2 powi 53" by simp
  have b: "(2::real) powi e \<le> 2 powi 970"
    using assms(3) by (intro power_int_increasing) simp_all
  have c: "0 \<le> \<bar>real_of_int m\<bar>" "0 < (2::real) powi e" by simp_all
  have "\<bar>real_of_int m\<bar> * 2 powi e < 2 powi 53 * 2 powi 970"
    using a b c by (rule mult_less_le_imp_less)
  also have "\<dots> < 2 ^ 1024" by simp
  finally have "\<bar>real_of_int m * 2 powi e\<bar> < 2 ^ 1024" by (simp add: abs_mult)
  then show ?thesis using binary64_fixed[OF assms(1,2)] by (simp add: round64_Num)
qed

lemma round64_dyadic [simp]:
  "round64 (1 / 8) = Num (1 / 8)"
  "round64 (1 / 4) = Num (1 / 4)"
  using round64_fixed[of 1 "- 3"] round64_fixed[of 1 "- 2"] by (simp_all add: power_int_minus)

lemma dim_numeral [simp]: "dim 800 = Num 800" "dim 600 = Num 600" "dim 640 = Num 640"
  "dim 480 = Num 480"
  by (simp_all add: dim_def)

text \<open>A rounded sum is above \<open>1\<close> exactly when the exact sum is above \<open>1 + 2 powi - 53\<close>.\<close>

lemma js_gt_round64_one: "js_gt (round64 s) (Num 1) \<longleftrightarrow> 1 + 1 / 2 ^ 53 < s"
proof (cases s rule: round64_cases)
  case 1
  then have "\<not> binary64 s \<le> 1" by simp
  then have "1 + 1 / 2 ^ 53 < s" by (simp add: binary64_le_one_iff)
  with 1 show ?thesis by (simp add: js_gt_def)
next
  case 2
  then have "binary64 s \<le> 1" by simp
  then have "\<not> 1 + 1 / 2 ^ 53 < s" by (simp add: binary64_le_one_iff)
  with 2 show ?thesis by (simp add: js_gt_def)
next
  case 3
  have "1 < binary64 s \<longleftrightarrow> 1 + 1 / 2 ^ 53 < s"
    using binary64_le_one_iff[of s] by linarith
  with 3 show ?thesis by (simp add: js_gt_def)
qed

subsection \<open>Auxiliary facts\<close>

lemma roiEffect_keeps [simp]:
  "snapshot (roiEffect s) = snapshot s"
  "roiNormalized (roiEffect s) = roiNormalized s"
  "selectedCameraId (roiEffect s) = selectedCameraId s"
  "isDrawing (roiEffect s) = isDrawing s"
  "cameras (roiEffect s) = cameras s"
  by (simp_all add: roiEffect_def split: option.splits)

text \<open>The request is issued exactly when the three cells are set, the camera identifier
  is truthy and both checks pass.\<close>

lemma handleSave_Await_iff:
  "handleSave s = Await c n \<longleftrightarrow>
     (\<exists>r img. rect s = Some r \<and> snapshot s = Some img \<and> selectedCameraId s = Some c \<and>
        c \<noteq> 0 \<and> n = normalized r img \<and> validate n = None)"
  by (auto simp: handleSave_def split: option.splits)

lemma validate_finite:
  "validate \<lparr>roi_x = Num x, roi_y = Num y, roi_w = Num w, roi_h = Num h\<rparr> = None \<longleftrightarrow>
     0 \<le> x \<and> 0 \<le> y \<and> 0 < w \<and> 0 < h \<and>
     x + w \<le> 1 + 1 / 2 ^ 53 \<and> y + h \<le> 1 + 1 / 2 ^ 53"
  by (auto simp: validate_def js_gt_round64_one)

lemma normalized_drawn: "normalized drawn_rect snap800 = eighth_quarter"
  by (simp add: normalized_def drawn_rect_def snap800_def eighth_quarter_def)

lemma handleSave_drawn: "handleSave drawn = Await 1 eighth_quarter"
proof -
  have "validate eighth_quarter = None"
    unfolding eighth_quarter_def by (simp add: validate_finite)
  then show ?thesis
    by (simp add: handleSave_Await_iff drawn_def normalized_drawn)
qed


lemma binary64_tenths:
  "binary64 (1 / 10) = tenth" "binary64 (9 / 10) = nine_tenths"
proof -
  have "expo (1 / 10) = - 4"
    by (rule expo_unique) (simp_all add: power_int_minus)
  then show "binary64 (1 / 10) = tenth"
    by (simp add: binary64_def rne_def Let_def power_int_minus tenth_def)
  have "expo (9 / 10) = - 1"
    by (rule expo_unique) (simp_all add: power_int_minus)
  then show "binary64 (9 / 10) = nine_tenths"
    by (simp add: binary64_def rne_def Let_def power_int_minus nine_tenths_def)
qed

lemma round64_tenths:
  "round64 (1 / 10) = Num tenth" "round64 (9 / 10) = Num nine_tenths"
  by (simp_all add: round64_def binary64_tenths) (simp_all add: tenth_def nine_tenths_def)

lemma handleSave_wide: "handleSave wide = Await 1 full_width"
proof -
  have n: "normalized wide_rect snap800 = full_width"
    by (simp add: normalized_def wide_rect_def snap800_def full_width_def round64_tenths)
  have "validate full_width = None"
    unfolding full_width_def by (simp add: validate_finite) (simp add: tenth_def nine_tenths_def)
  then show ?thesis
    by (simp add: handleSave_Await_iff wide_def n)
qed

text \<open>A field that is \<^verbatim>\<open>NaN\<close> fails no comparison.\<close>

lemma validate_lets_NaN_pass:
  "validate \<lparr>roi_x = NaN, roi_y = NaN, roi_w = NaN, roi_h = NaN\<rparr> = None"
  by (simp add: validate_def js_gt_def)

subsection \<open>The checks before the request\<close>

text \<open>
  C1, as the code has it. The two sums are rounded to binary64 before they are compared
  with \<open>1\<close>. For every normalized rectangle \<open>{x, y, w, h}\<close> of finite numbers, the checks
  that \<^verbatim>\<open>handleSave\<close> makes before the request pass if and only if \<open>x \<ge> 0\<close>, \<open>y \<ge> 0\<close>,
  \<open>w > 0\<close>, \<open>h > 0\<close>, and \<open>x + w\<close> and \<open>y + h\<close> are at most \<open>1 + 2 powi - 53\<close>, which is
  where a sum starts to round above \<open>1\<close>. So a rectangle of finite numbers with \<open>x \<ge> 0\<close>,
  \<open>y \<ge> 0\<close>, \<open>w > 0\<close>, \<open>h > 0\<close>, \<open>x + w \<le> 1\<close> and \<open>y + h \<le> 1\<close> is accepted.
\<close>

theorem validate_accepts_iff:
  "(validate \<lparr>roi_x = Num x, roi_y = Num y, roi_w = Num w, roi_h = Num h\<rparr> = None \<longleftrightarrow>
      0 \<le> x \<and> 0 \<le> y \<and> 0 < w \<and> 0 < h \<and>
      x + w \<le> 1 + 1 / 2 ^ 53 \<and> y + h \<le> 1 + 1 / 2 ^ 53) \<and>
   (0 \<le> x \<and> 0 \<le> y \<and> 0 < w \<and> 0 < h \<and> x + w \<le> 1 \<and> y + h \<le> 1 \<longrightarrow>
      validate \<lparr>roi_x = Num x, roi_y = Num y, roi_w = Num w, roi_h = Num h\<rparr> = None)"
proof -
  have "(0::real) \<le> 1 / 2 ^ 53" by simp
  then have "x + w \<le> 1 \<Longrightarrow> x + w \<le> 1 + 1 / 2 ^ 53" "y + h \<le> 1 \<Longrightarrow> y + h \<le> 1 + 1 / 2 ^ 53"
    by linarith+
  then show ?thesis by (auto simp: validate_finite)
qed

theorem validate_accepts_iff_witness:
  "validate eighth_quarter = None \<and> validate too_wide \<noteq> None"
proof -
  have a: "(0::real) \<le> 1 / 8 \<and> (0::real) \<le> 1 / 8 \<and> (0::real) < 1 / 4 \<and> (0::real) < 1 / 4 \<and>
           (1::real) / 8 + 1 / 4 \<le> 1 \<and> (1::real) / 8 + 1 / 4 \<le> 1" by simp
  from validate_accepts_iff[of "1 / 8" "1 / 8" "1 / 4" "1 / 4"] a
  have b: "validate eighth_quarter = None" unfolding eighth_quarter_def by blast
  have "\<not> ((7::real) / 8 + 1 / 4 \<le> 1 + 1 / 2 ^ 53)" by simp
  with validate_accepts_iff[of "7 / 8" "1 / 8" "1 / 4" "1 / 8"]
  have "validate too_wide \<noteq> None" unfolding too_wide_def by blast
  with b show ?thesis ..
qed

text \<open>The rectangle \<open>{80, 0, 720, 600}\<close> on a snapshot of 800 by 600: the quotients are the
  binary64 values nearest to \<open>0.1\<close> and \<open>0.9\<close>, their exact sum is above \<open>1\<close>, and the
  request is sent.\<close>

theorem validate_accepts_counterexample:
  "handleSave wide = Await 1 full_width \<and>
   roi_x full_width = Num tenth \<and> roi_w full_width = Num nine_tenths \<and>
   1 < tenth + nine_tenths \<and> validate full_width = None"
proof -
  have "validate full_width = None"
    using handleSave_wide by (auto simp: handleSave_Await_iff)
  then show ?thesis
    by (simp add: handleSave_wide) (simp add: full_width_def tenth_def nine_tenths_def)
qed

text \<open>
  C7, as the code has it. There are two alerts, not three: one for a rectangle whose origin
  is negative or whose width or height is not positive, and one for a rectangle that passes
  that check and exceeds the right or the bottom edge, each comparison as JavaScript
  evaluates it. A rectangle in the first class and one in the second are told apart.
\<close>

theorem validate_reasons:
  "(validate n = Some ''ROI must be within the image bounds.'' \<longleftrightarrow>
      js_lt (roi_x n) (Num 0) \<or> js_lt (roi_y n) (Num 0) \<or>
      js_le (roi_w n) (Num 0) \<or> js_le (roi_h n) (Num 0)) \<and>
   (validate n = Some ''ROI must fit within the image bounds.'' \<longleftrightarrow>
      \<not> js_lt (roi_x n) (Num 0) \<and> \<not> js_lt (roi_y n) (Num 0) \<and>
      \<not> js_le (roi_w n) (Num 0) \<and> \<not> js_le (roi_h n) (Num 0) \<and>
      (js_gt (js_add (roi_x n) (roi_w n)) (Num 1) \<or>
       js_gt (js_add (roi_y n) (roi_h n)) (Num 1))) \<and>
   (validate a = Some ''ROI must be within the image bounds.'' \<and>
    validate b = Some ''ROI must fit within the image bounds.'' \<longrightarrow> validate a \<noteq> validate b)"
  by (auto simp: validate_def)

theorem validate_reasons_witness:
  "validate left_of_image = Some ''ROI must be within the image bounds.'' \<and>
   validate too_wide = Some ''ROI must fit within the image bounds.'' \<and>
   validate left_of_image \<noteq> validate too_wide"
proof -
  have a: "validate left_of_image = Some ''ROI must be within the image bounds.''"
    by (simp add: validate_def left_of_image_def)
  have b: "validate too_wide = Some ''ROI must fit within the image bounds.''"
    by (simp add: validate_def too_wide_def js_gt_round64_one)
  from validate_reasons[of left_of_image left_of_image too_wide] a b
  have "validate left_of_image \<noteq> validate too_wide" by blast
  with a b show ?thesis by blast
qed

text \<open>A rectangle that only starts left of the image and one that only has no width get the
  same alert.\<close>

theorem validate_reasons_counterexample:
  "js_lt (roi_x left_of_image) (Num 0) \<and> \<not> js_lt (roi_y left_of_image) (Num 0) \<and>
   \<not> js_le (roi_w left_of_image) (Num 0) \<and> \<not> js_le (roi_h left_of_image) (Num 0) \<and>
   \<not> js_gt (js_add (roi_x left_of_image) (roi_w left_of_image)) (Num 1) \<and>
   \<not> js_gt (js_add (roi_y left_of_image) (roi_h left_of_image)) (Num 1) \<and>
   \<not> js_lt (roi_x no_width) (Num 0) \<and> \<not> js_lt (roi_y no_width) (Num 0) \<and>
   js_le (roi_w no_width) (Num 0) \<and> \<not> js_le (roi_h no_width) (Num 0) \<and>
   \<not> js_gt (js_add (roi_x no_width) (roi_w no_width)) (Num 1) \<and>
   \<not> js_gt (js_add (roi_y no_width) (roi_h no_width)) (Num 1) \<and>
   validate left_of_image = Some ''ROI must be within the image bounds.'' \<and>
   validate no_width = Some ''ROI must be within the image bounds.''"
  by (simp add: validate_def left_of_image_def no_width_def js_gt_def)

subsection \<open>Saving\<close>

text \<open>
  C3. \<^verbatim>\<open>handleSave\<close> writes the cached ROI only after the request has succeeded. When the
  request fails, the code after the \<^verbatim>\<open>await\<close> leaves the whole state as it finds it, so
  the cached ROI and the candidate rectangle are what they were before the call; and
  whenever a save changes the cached ROI, the request was sent and acknowledged, and the
  cached ROI is the body that was sent.
\<close>

theorem save_failure_keeps_state:
  "fst (handleSave_resume (Failed detail) n s) = s \<and>
   roiNormalized (fst (handleSave_resume Ack n s)) = Some n \<and>
   (handleSave s = Await c n \<and> api c n = Failed detail \<longrightarrow> fst (save api s) = s) \<and>
   (roiNormalized (fst (save api s)) \<noteq> roiNormalized s \<longrightarrow>
      (\<exists>c n. handleSave s = Await c n \<and> api c n = Ack \<and>
         roiNormalized (fst (save api s)) = Some n))"
  by (auto simp: save_def handleSave_resume_def split: save_step.splits reply.splits)

theorem save_failure_keeps_state_witness:
  "handleSave drawn = Await 1 eighth_quarter \<and>
   fst (save (\<lambda>c n. Failed (Some ''ROI out of range'')) drawn) = drawn \<and>
   roiNormalized (fst (save (\<lambda>c n. Ack) drawn)) \<noteq> roiNormalized drawn \<and>
   (\<exists>c n. handleSave drawn = Await c n \<and>
      roiNormalized (fst (save (\<lambda>c n. Ack) drawn)) = Some n)"
proof -
  have h: "handleSave drawn = Await 1 eighth_quarter" by (rule handleSave_drawn)
  have k: "roiNormalized (fst (save (\<lambda>c n. Ack) drawn)) \<noteq> roiNormalized drawn"
    by (simp add: save_def h handleSave_resume_def) (simp add: drawn_def)
  from save_failure_keeps_state
         [of "Some ''ROI out of range''" eighth_quarter drawn 1
            "\<lambda>c n. Failed (Some ''ROI out of range'')"] h
  have a: "fst (save (\<lambda>c n. Failed (Some ''ROI out of range'')) drawn) = drawn" by simp
  from save_failure_keeps_state[of None eighth_quarter drawn 1 "\<lambda>c n. Ack"] k
  have b: "\<exists>c n. handleSave drawn = Await c n \<and>
             roiNormalized (fst (save (\<lambda>c n. Ack) drawn)) = Some n" by blast
  from h a k b show ?thesis by blast
qed

text \<open>In the older editor a rectangle is only ever set once the snapshot is loaded.\<close>

lemma legacy_rect_needs_snapshot:
  "(rect_legacy s \<noteq> None \<longrightarrow> snapshot_legacy s \<noteq> None) \<Longrightarrow>
   rect_legacy (foldl step_legacy s es) \<noteq> None \<longrightarrow>
     snapshot_legacy (foldl step_legacy s es) \<noteq> None"
proof (induction es arbitrary: s)
  case Nil
  then show ?case by simp
next
  case (Cons e es)
  have "rect_legacy (step_legacy s e) \<noteq> None \<longrightarrow> snapshot_legacy (step_legacy s e) \<noteq> None"
  proof (cases e)
    case (Loaded img)
    then show ?thesis by simp
  next
    case (Pointer p)
    with Cons.prems show ?thesis
      by (cases p) (auto simp: handleMouseDown_legacy_def handleMouseMove_legacy_def
          handleMouseUp_legacy_def split: option.splits)
  qed
  from Cons.IH[OF this] show ?case by simp
qed

text \<open>
  C8. In every state without a candidate rectangle or without a loaded snapshot,
  \<^verbatim>\<open>handleSave\<close> returns at once: no request, no alert, no error, and the state is as it
  was. The older editor only tests the rectangle; there the same holds in every state it
  can reach, where a rectangle is never set before the snapshot.
\<close>

theorem save_without_rect_is_noop:
  "(rect s = None \<or> snapshot s = None \<longrightarrow> handleSave s = Return [] \<and> save api s = (s, [])) \<and>
   (rect_legacy (run_legacy es) = None \<or> snapshot_legacy (run_legacy es) = None \<longrightarrow>
      handleSave_legacy (run_legacy es) = None \<and>
      save_legacy api' (run_legacy es) = (run_legacy es, []))"
proof -
  have inv: "rect_legacy (run_legacy es) \<noteq> None \<longrightarrow> snapshot_legacy (run_legacy es) \<noteq> None"
    unfolding run_legacy_def
    by (rule legacy_rect_needs_snapshot) (simp add: initial_legacy_def)
  have a: "rect s = None \<or> snapshot s = None \<longrightarrow> handleSave s = Return []"
    by (auto simp: handleSave_def split: option.splits)
  have b: "handleSave s = Return [] \<Longrightarrow> save api s = (s, [])"
    by (simp add: save_def)
  have c: "rect_legacy (run_legacy es) = None \<longrightarrow>
             handleSave_legacy (run_legacy es) = None \<and>
             save_legacy api' (run_legacy es) = (run_legacy es, [])"
    by (simp add: handleSave_legacy_def save_legacy_def)
  from inv a b c show ?thesis by blast
qed

text \<open>The editor after \<^verbatim>\<open>handleClear\<close>, and the older editor in which the pointer was used
  before the snapshot arrived.\<close>

theorem save_without_rect_is_noop_witness:
  "rect (handleClear drawn) = None \<and>
   save (\<lambda>c n. Ack) (handleClear drawn) = (handleClear drawn, []) \<and>
   snapshot_legacy (run_legacy [Pointer (Down (Num 50, Num 50)), Pointer Up]) = None \<and>
   save_legacy (\<lambda>q. Ack) (run_legacy [Pointer (Down (Num 50, Num 50)), Pointer Up]) =
     (run_legacy [Pointer (Down (Num 50, Num 50)), Pointer Up], [])"
proof -
  have h: "rect (handleClear drawn) = None" by (simp add: handleClear_def)
  have k: "snapshot_legacy (run_legacy [Pointer (Down (Num 50, Num 50)), Pointer Up]) = None"
    by (simp add: run_legacy_def initial_legacy_def)
  from save_without_rect_is_noop
         [of "handleClear drawn" "\<lambda>c n. Ack"
            "[Pointer (Down (Num 50, Num 50)), Pointer Up]" "\<lambda>q. Ack"]
       h k
  show ?thesis by blast
qed

text \<open>
  C10. For every candidate rectangle and loaded snapshot, the values of the readout are the
  body that \<^verbatim>\<open>handleSave\<close> computes for the request: the two formulas agree, and whenever
  \<^verbatim>\<open>handleSave\<close> sends a body it is what the readout shows.
\<close>

theorem readout_is_payload:
  "(rect s = Some r \<and> snapshot s = Some img \<longrightarrow>
      normalizedValues s = Some (normalized r img)) \<and>
   (handleSave s = Await c n \<longrightarrow> normalizedValues s = Some n)"
  by (auto simp: normalizedValues_def normalized_def handleSave_def
      split: option.splits if_splits)

theorem readout_is_payload_witness:
  "rect drawn = Some drawn_rect \<and> snapshot drawn = Some snap800 \<and>
   handleSave drawn = Await 1 eighth_quarter \<and>
   normalizedValues drawn = Some eighth_quarter \<and>
   normalized drawn_rect snap800 = eighth_quarter"
proof -
  have h: "rect drawn = Some drawn_rect \<and> snapshot drawn = Some snap800"
    by (simp add: drawn_def)
  have k: "handleSave drawn = Await 1 eighth_quarter" by (rule handleSave_drawn)
  from readout_is_payload[of drawn drawn_rect snap800 1 eighth_quarter] h k
  have "normalizedValues drawn = Some (normalized drawn_rect snap800) \<and>
        normalizedValues drawn = Some eighth_quarter" by blast
  with h k show ?thesis by auto
qed

subsection \<open>Camera switches and late responses\<close>

lemma of_selected_selectCamera:
  assumes "of_selected be s" "c \<noteq> 0"
  shows "of_selected be (fst (selectCamera c s))"
  using assms
  by (auto simp: selectCamera_def of_selected_def roiEffect_def split: option.splits)

lemma of_selected_snapshotLoaded:
  assumes "of_selected be s" "selectedCameraId s = Some c" "snapshot_of be c = Some img"
  shows "of_selected be (snapshotLoaded img s)"
  using assms
  by (auto simp: of_selected_def snapshotLoaded_def roiEffect_def split: option.splits)

lemma of_selected_roiLoaded:
  assumes "of_selected be s" "selectedCameraId s = Some c" "roi_of be c = Some d"
  shows "of_selected be (roiLoaded d s)"
  using assms
  by (auto simp: of_selected_def roiLoaded_def roiEffect_def split: option.splits)

lemma of_selected_step:
  assumes "of_selected be (ui t)" "in_time t e" "step be t e = Some t'"
  shows "of_selected be (ui t')"
proof (cases e)
  case (Select c)
  with assms show ?thesis by (auto simp: of_selected_selectCamera)
next
  case (SnapshotArrives c)
  with assms show ?thesis
    by (auto simp: of_selected_snapshotLoaded split: if_splits option.splits)
next
  case (RoiArrives c)
  with assms show ?thesis
    by (auto simp: of_selected_roiLoaded split: if_splits option.splits)
qed

lemma of_selected_run:
  "of_selected be (ui t) \<Longrightarrow> all_in_time be t es \<Longrightarrow>
     \<exists>t'. run be t es = Some t' \<and> of_selected be (ui t')"
proof (induction es arbitrary: t)
  case Nil
  then show ?case by simp
next
  case (Cons e es)
  from Cons.prems(2) obtain t1 where s: "step be t e = Some t1" and i: "in_time t e"
    and r: "all_in_time be t1 es"
    by (auto split: option.splits)
  from of_selected_step[OF Cons.prems(1) i s] have "of_selected be (ui t1)" .
  from Cons.IH[OF this r] s show ?case by simp
qed

lemma of_selected_start: "of_selected be (ui start)"
  by (simp add: of_selected_def start_def initial_def)

text \<open>
  C2, as the code has it. Neither response handler reads the selected camera: a snapshot or
  an ROI that arrives is stored, whichever camera is selected by then. Selecting another
  camera (with a truthy identifier) clears the snapshot, the rectangle and the cached ROI
  and issues the two fetches. So the state is that of the selected camera as long as every
  response arrives while the camera it was requested for is selected.
\<close>

theorem responses_in_time:
  "(all_in_time be start es \<longrightarrow> (\<exists>t. run be start es = Some t \<and> of_selected be (ui t))) \<and>
   snapshot (snapshotLoaded img s) = Some img \<and>
   roiNormalized (roiLoaded d s) = Some d \<and>
   (c \<noteq> 0 \<and> selectedCameraId s \<noteq> Some c \<longrightarrow>
      selectCamera c s =
        (s\<lparr>selectedCameraId := Some c, snapshot := None, rect := None, roiNormalized := None\<rparr>,
         [GetSnapshot c, GetRoi c]))"
  using of_selected_run[OF of_selected_start, of be es]
  by (simp add: snapshotLoaded_def roiLoaded_def selectCamera_def)

lemmas trace_simps = two_cameras_def start_def initial_def selectCamera_def snapshotLoaded_def
  roiLoaded_def roiEffect_def snap800_def snap640_def eighth_quarter_def

text \<open>Camera 1, then camera 2, whose two responses arrive; those of camera 1 are still in
  flight.\<close>

theorem responses_in_time_witness:
  "all_in_time two_cameras start timely_trace \<and>
   (\<exists>t. run two_cameras start timely_trace = Some t \<and> of_selected two_cameras (ui t)) \<and>
   run two_cameras start timely_trace =
     Some \<lparr>ui = \<lparr>cameras = [], selectedCameraId = Some 2, snapshot = Some snap640, rect = None,
                 isDrawing = False, roiNormalized = None\<rparr>,
           pending = [GetSnapshot 1, GetRoi 1]\<rparr>"
proof -
  have h: "all_in_time two_cameras start timely_trace"
    by (simp add: timely_trace_def trace_simps)
  have r: "run two_cameras start timely_trace =
     Some \<lparr>ui = \<lparr>cameras = [], selectedCameraId = Some 2, snapshot = Some snap640, rect = None,
                 isDrawing = False, roiNormalized = None\<rparr>,
           pending = [GetSnapshot 1, GetRoi 1]\<rparr>"
    by (simp add: timely_trace_def trace_simps)
  from responses_in_time[of two_cameras timely_trace] h
  have "\<exists>t. run two_cameras start timely_trace = Some t \<and> of_selected two_cameras (ui t)"
    by blast
  with h r show ?thesis by blast
qed

text \<open>The same, and then the two responses of camera 1 arrive: camera 2 is selected, and the
  editor shows the snapshot, the cached ROI and the rectangle of camera 1.\<close>

theorem stale_response_counterexample:
  "run two_cameras start stale_trace =
     Some \<lparr>ui = \<lparr>cameras = [], selectedCameraId = Some 2, snapshot = Some snap800,
                 rect = Some drawn_rect, isDrawing = False, roiNormalized = Some eighth_quarter\<rparr>,
           pending = []\<rparr> \<and>
   snapshot_of two_cameras 1 = Some snap800 \<and> snapshot_of two_cameras 2 = Some snap640 \<and>
   roi_of two_cameras 1 = Some eighth_quarter \<and> roi_of two_cameras 2 = None \<and>
   snap800 \<noteq> snap640"
  by (simp add: stale_trace_def trace_simps drawn_rect_def eighth_quarter_def)

subsection \<open>Corner normalization\<close>

lemma js_abs_idem [simp]: "js_abs (js_abs a) = js_abs a"
  by (cases a) simp_all

lemma js_le_zero_abs_round64: "js_le (Num 0) (js_abs (round64 v))"
  by (cases v rule: round64_cases) simp_all

text \<open>On one axis: the origin that \<^verbatim>\<open>normalizeRect\<close> computes stays where it is when the
  rectangle is normalized again.\<close>

lemma normalize_axis_idem:
  "js_min (js_min (Num x) (round64 (x + w)))
          (js_add (js_min (Num x) (round64 (x + w))) (Num \<bar>w\<bar>)) =
   js_min (Num x) (round64 (x + w))"
proof (cases "x + w" rule: round64_cases)
  case 1
  have "binary64 (x + w) \<le> binary64 (x + \<bar>w\<bar>)" by (rule binary64_mono) simp
  with 1 have "round64 (x + \<bar>w\<bar>) = Infinity" by (simp add: round64_def)
  with 1 show ?thesis by simp
next
  case 2
  then show ?thesis by simp
next
  case 3
  define t where "t = binary64 (x + w)"
  show ?thesis
  proof (cases "t < x")
    case True
    have "t = binary64 t" by (simp add: t_def binary64_idem)
    also have "\<dots> \<le> binary64 (t + \<bar>w\<bar>)" by (rule binary64_mono) simp
    finally have le: "t \<le> binary64 (t + \<bar>w\<bar>)" .
    have "\<not> js_lt (round64 (t + \<bar>w\<bar>)) (Num t)"
    proof (cases "t + \<bar>w\<bar>" rule: round64_cases)
      case 1
      then show ?thesis by simp
    next
      case 2
      have "- (2 ^ 1024) < t" using 3(2) unfolding t_def by linarith
      with 2(2) le have False by linarith
      then show ?thesis ..
    next
      case 3
      with le show ?thesis by simp
    qed
    then have "js_min (Num t) (round64 (t + \<bar>w\<bar>)) = Num t"
      by (cases "t + \<bar>w\<bar>" rule: round64_cases) simp_all
    with 3 True show ?thesis by (simp add: t_def)
  next
    case False
    have "t \<le> binary64 (x + \<bar>w\<bar>)" unfolding t_def by (rule binary64_mono) simp
    with False have le: "x \<le> binary64 (x + \<bar>w\<bar>)" by simp
    have "\<not> js_lt (round64 (x + \<bar>w\<bar>)) (Num x)"
    proof (cases "x + \<bar>w\<bar>" rule: round64_cases)
      case 1
      then show ?thesis by simp
    next
      case 2
      have "t \<le> binary64 (x + \<bar>w\<bar>)" unfolding t_def by (rule binary64_mono) simp
      moreover have "- (2 ^ 1024) < t" using 3(2) unfolding t_def by linarith
      ultimately have False using 2(2) by linarith
      then show ?thesis ..
    next
      case 3
      with le show ?thesis by simp
    qed
    then have "js_min (Num x) (round64 (x + \<bar>w\<bar>)) = Num x"
      by (cases "x + \<bar>w\<bar>" rule: round64_cases) simp_all
    with 3 False show ?thesis by (simp add: t_def)
  qed
qed

text \<open>On one axis with integer coordinates below \<open>2 ^ 52\<close>: no operation rounds.\<close>

lemma normalize_axis_int:
  assumes "\<bar>i\<bar> < 2 ^ 52" "\<bar>j\<bar> < 2 ^ 52"
  shows "js_min (Num (real_of_int i)) (round64 (real_of_int i + real_of_int j)) =
           Num (real_of_int (min i (i + j)))"
    and "js_add (Num (real_of_int (min i (i + j)))) (Num \<bar>real_of_int j\<bar>) =
           Num (real_of_int (max i (i + j)))"
proof -
  have p: "(2::int) ^ 53 = 2 * 2 ^ 52" by simp
  have a: "\<bar>i + j\<bar> < 2 ^ 53" unfolding p using assms by linarith
  have "round64 (real_of_int i + real_of_int j) = round64 (real_of_int (i + j))" by simp
  also have "\<dots> = Num (real_of_int (i + j))" using a by (rule round64_of_int)
  finally show "js_min (Num (real_of_int i)) (round64 (real_of_int i + real_of_int j)) =
           Num (real_of_int (min i (i + j)))"
    by (simp add: min_def)
  have b: "\<bar>max i (i + j)\<bar> < 2 ^ 53" unfolding p using assms by (auto simp: max_def)
  have "real_of_int (min i (i + j)) + \<bar>real_of_int j\<bar> = real_of_int (max i (i + j))"
    by (simp add: min_def max_def)
  then have "round64 (real_of_int (min i (i + j)) + \<bar>real_of_int j\<bar>) =
      round64 (real_of_int (max i (i + j)))" by simp
  also have "\<dots> = Num (real_of_int (max i (i + j)))" using b by (rule round64_of_int)
  finally show "js_add (Num (real_of_int (min i (i + j)))) (Num \<bar>real_of_int j\<bar>) =
           Num (real_of_int (max i (i + j)))" by simp
qed

text \<open>The rectangle dragged from \<open>0.7\<close> to the left by \<open>4.5\<close>: the sum rounds, and adding
  the width back gives a far corner one step of the grid above \<open>0.7\<close>.\<close>

lemma dragged_left_sums:
  "js_add (Num seven_tenths) (Num (- (9 / 2))) = Num (- (4278419646001971 / 2 ^ 50))"
  "js_add (Num (- (4278419646001971 / 2 ^ 50))) (Num (9 / 2)) = Num (788129934789837 / 2 ^ 50)"
proof -
  have "expo (seven_tenths + - (9 / 2)) = 1"
    by (rule expo_unique) (simp_all add: seven_tenths_def)
  then show "js_add (Num seven_tenths) (Num (- (9 / 2))) = Num (- (4278419646001971 / 2 ^ 50))"
    by (simp add: round64_def binary64_def rne_def Let_def power_int_minus seven_tenths_def)
  have "expo (- (4278419646001971 / 2 ^ 50) + 9 / 2) = - 1"
    by (rule expo_unique) (simp_all add: power_int_minus)
  then show "js_add (Num (- (4278419646001971 / 2 ^ 50))) (Num (9 / 2)) =
      Num (788129934789837 / 2 ^ 50)"
    by (simp add: round64_def binary64_def rne_def Let_def power_int_minus)
qed

text \<open>
  C9, as the code has it. \<^verbatim>\<open>normalizeRect(null)\<close> is \<^verbatim>\<open>null\<close>. For every pixel rectangle of
  finite numbers, normalizing twice is the same as normalizing once; the result has the
  absolute values of the width and of the height, which are not negative, and its origin
  is the smaller of \<open>x\<close> and the rounded sum \<open>x + width\<close> (of \<open>y\<close> and \<open>y + height\<close>). The
  sum is rounded, so the corners are those of the rectangle up to that rounding only; for
  integer coordinates below \<open>2 ^ 52\<close> in magnitude the result has exactly the minimum and the
  maximum corner of the rectangle.
\<close>

theorem normalizeRect_idempotent:
  "normalizeRect None = None \<and>
   normalizeRect (normalizeRect
       (Some \<lparr>rect_x = Num x, rect_y = Num y, rect_width = Num w, rect_height = Num h\<rparr>)) =
     normalizeRect
       (Some \<lparr>rect_x = Num x, rect_y = Num y, rect_width = Num w, rect_height = Num h\<rparr>) \<and>
   normalizeRect
       (Some \<lparr>rect_x = Num x, rect_y = Num y, rect_width = Num w, rect_height = Num h\<rparr>) =
     Some \<lparr>rect_x = js_min (Num x) (round64 (x + w)), rect_y = js_min (Num y) (round64 (y + h)),
           rect_width = Num \<bar>w\<bar>, rect_height = Num \<bar>h\<bar>\<rparr> \<and>
   (\<bar>i\<bar> < 2 ^ 52 \<and> \<bar>j\<bar> < 2 ^ 52 \<and> \<bar>k\<bar> < 2 ^ 52 \<and> \<bar>l\<bar> < 2 ^ 52 \<longrightarrow>
      normalizeRect
        (Some \<lparr>rect_x = Num (real_of_int i), rect_y = Num (real_of_int k),
               rect_width = Num (real_of_int j), rect_height = Num (real_of_int l)\<rparr>) =
      Some \<lparr>rect_x = Num (real_of_int (min i (i + j))),
            rect_y = Num (real_of_int (min k (k + l))),
            rect_width = Num (real_of_int \<bar>j\<bar>), rect_height = Num (real_of_int \<bar>l\<bar>)\<rparr> \<and>
      js_add (Num (real_of_int (min i (i + j)))) (Num (real_of_int \<bar>j\<bar>)) =
        Num (real_of_int (max i (i + j))) \<and>
      js_add (Num (real_of_int (min k (k + l)))) (Num (real_of_int \<bar>l\<bar>)) =
        Num (real_of_int (max k (k + l))))"
proof -
  have a: "normalizeRect None = None" by (simp add: normalizeRect_def)
  have b: "normalizeRect
       (Some \<lparr>rect_x = Num x, rect_y = Num y, rect_width = Num w, rect_height = Num h\<rparr>) =
     Some \<lparr>rect_x = js_min (Num x) (round64 (x + w)), rect_y = js_min (Num y) (round64 (y + h)),
           rect_width = Num \<bar>w\<bar>, rect_height = Num \<bar>h\<bar>\<rparr>"
    by (simp add: normalizeRect_def)
  have c: "normalizeRect (normalizeRect
       (Some \<lparr>rect_x = Num x, rect_y = Num y, rect_width = Num w, rect_height = Num h\<rparr>)) =
     normalizeRect
       (Some \<lparr>rect_x = Num x, rect_y = Num y, rect_width = Num w, rect_height = Num h\<rparr>)"
    unfolding b by (simp add: normalizeRect_def normalize_axis_idem)
  have d: "normalizeRect
        (Some \<lparr>rect_x = Num (real_of_int i), rect_y = Num (real_of_int k),
               rect_width = Num (real_of_int j), rect_height = Num (real_of_int l)\<rparr>) =
      Some \<lparr>rect_x = Num (real_of_int (min i (i + j))),
            rect_y = Num (real_of_int (min k (k + l))),
            rect_width = Num (real_of_int \<bar>j\<bar>), rect_height = Num (real_of_int \<bar>l\<bar>)\<rparr> \<and>
      js_add (Num (real_of_int (min i (i + j)))) (Num (real_of_int \<bar>j\<bar>)) =
        Num (real_of_int (max i (i + j))) \<and>
      js_add (Num (real_of_int (min k (k + l)))) (Num (real_of_int \<bar>l\<bar>)) =
        Num (real_of_int (max k (k + l)))"
    if "\<bar>i\<bar> < 2 ^ 52 \<and> \<bar>j\<bar> < 2 ^ 52 \<and> \<bar>k\<bar> < 2 ^ 52 \<and> \<bar>l\<bar> < 2 ^ 52"
  proof -
    from that have ij: "\<bar>i\<bar> < 2 ^ 52" "\<bar>j\<bar> < 2 ^ 52" and kl: "\<bar>k\<bar> < 2 ^ 52" "\<bar>l\<bar> < 2 ^ 52"
      by simp_all
    from normalize_axis_int[OF ij] normalize_axis_int[OF kl] show ?thesis
      by (simp add: normalizeRect_def)
  qed
  from a b c d show ?thesis by blast
qed

theorem normalizeRect_idempotent_witness:
  "normalizeRect (Some \<lparr>rect_x = Num 50, rect_y = Num 50, rect_width = Num (- 40),
       rect_height = Num (- 30)\<rparr>) =
     Some \<lparr>rect_x = Num 10, rect_y = Num 20, rect_width = Num 40, rect_height = Num 30\<rparr> \<and>
   js_add (Num 10) (Num 40) = Num 50 \<and> js_add (Num 20) (Num 30) = Num 50"
proof -
  have "\<bar>50::int\<bar> < 2 ^ 52 \<and> \<bar>- 40::int\<bar> < 2 ^ 52 \<and> \<bar>50::int\<bar> < 2 ^ 52 \<and> \<bar>- 30::int\<bar> < 2 ^ 52"
    by simp
  with normalizeRect_idempotent[of _ _ _ _ 50 "- 40" 50 "- 30"] show ?thesis by simp
qed

theorem normalizeRect_corner_counterexample:
  "normalizeRect (Some dragged_left) =
     Some \<lparr>rect_x = Num (- (4278419646001971 / 2 ^ 50)), rect_y = Num 0,
           rect_width = Num (9 / 2), rect_height = Num 0\<rparr> \<and>
   js_add (Num (- (4278419646001971 / 2 ^ 50))) (Num (9 / 2)) = Num (788129934789837 / 2 ^ 50) \<and>
   rect_x dragged_left = Num seven_tenths \<and> seven_tenths < 788129934789837 / 2 ^ 50"
proof -
  have a: "js_min (Num seven_tenths) (Num (- (4278419646001971 / 2 ^ 50))) =
      Num (- (4278419646001971 / 2 ^ 50))"
    by (simp add: seven_tenths_def)
  have b: "seven_tenths < 788129934789837 / 2 ^ 50" by (simp add: seven_tenths_def)
  have "normalizeRect (Some dragged_left) =
     Some \<lparr>rect_x = Num (- (4278419646001971 / 2 ^ 50)), rect_y = Num 0,
           rect_width = Num (9 / 2), rect_height = Num 0\<rparr>"
    unfolding normalizeRect_def dragged_left_def
    by (simp only: option.case pixel_rect.simps dragged_left_sums(1) a)
       (simp add: js_abs.simps)
  with b show ?thesis by (simp only: dragged_left_sums(2)) (simp add: dragged_left_def)
qed

subsection \<open>Drawing\<close>

lemma moves_from_anchor:
  "snapshot s = Some img \<Longrightarrow>
   foldl pointer_event (handleMouseDown a s) (map Move ps) =
     s\<lparr>isDrawing := True,
       rect := Some \<lparr>rect_x = fst a, rect_y = snd a,
                     rect_width = (if ps = [] then Num 0 else js_sub (fst (last ps)) (fst a)),
                     rect_height = (if ps = [] then Num 0 else js_sub (snd (last ps)) (snd a))\<rparr>\<rparr>"
proof (induction ps rule: rev_induct)
  case Nil
  then show ?case by (simp add: handleMouseDown_def)
next
  case (snoc p ps)
  then show ?case by (simp add: handleMouseMove_def)
qed

lemma moves_keep_anchor:
  "snapshot s = Some img \<Longrightarrow>
   foldl pointer_event (handleMouseDown a s) (map Move (ps @ [q])) =
     s\<lparr>isDrawing := True,
       rect := Some \<lparr>rect_x = fst a, rect_y = snd a,
                     rect_width = js_sub (fst q) (fst a),
                     rect_height = js_sub (snd q) (snd a)\<rparr>\<rparr>"
  using moves_from_anchor[of s img a "ps @ [q]"] by simp

lemma moves_from_anchor_legacy:
  "foldl pointer_event_legacy (handleMouseDown_legacy a t) (map Move ps) =
     t\<lparr>rect_legacy := Some \<lparr>rect_x = fst a, rect_y = snd a,
                     rect_width = (if ps = [] then Num 0 else js_sub (fst (last ps)) (fst a)),
                     rect_height = (if ps = [] then Num 0 else js_sub (snd (last ps)) (snd a))\<rparr>\<rparr>"
proof (induction ps rule: rev_induct)
  case Nil
  then show ?case by (simp add: handleMouseDown_legacy_def)
next
  case (snoc p ps)
  then show ?case by (simp add: handleMouseMove_legacy_def)
qed

lemma moves_keep_anchor_legacy:
  "foldl pointer_event_legacy (handleMouseDown_legacy a t) (map Move (ps @ [q])) =
     t\<lparr>rect_legacy := Some \<lparr>rect_x = fst a, rect_y = snd a,
                            rect_width = js_sub (fst q) (fst a),
                            rect_height = js_sub (snd q) (snd a)\<rparr>\<rparr>"
  using moves_from_anchor_legacy[of a t "ps @ [q]"] by simp

text \<open>On one axis with integer positions below \<open>2 ^ 52\<close>: the difference, the sum and the
  minimum are exact.\<close>

lemma span_axis_int:
  assumes "\<bar>i\<bar> < 2 ^ 52" "\<bar>k\<bar> < 2 ^ 52"
  shows "js_sub (Num (real_of_int k)) (Num (real_of_int i)) = Num (real_of_int (k - i))"
    and "js_min (Num (real_of_int i))
           (js_add (Num (real_of_int i)) (Num (real_of_int (k - i)))) =
         Num (real_of_int (min i k))"
proof -
  have p: "(2::int) ^ 53 = 2 * 2 ^ 52" by simp
  have a: "\<bar>k - i\<bar> < 2 ^ 53" unfolding p using assms by linarith
  have b: "\<bar>k\<bar> < 2 ^ 53" unfolding p using assms by linarith
  have "round64 (real_of_int k + - real_of_int i) = round64 (real_of_int (k - i))" by simp
  also have "\<dots> = Num (real_of_int (k - i))" using a by (rule round64_of_int)
  finally show "js_sub (Num (real_of_int k)) (Num (real_of_int i)) = Num (real_of_int (k - i))"
    by (simp add: js_sub_def)
  have "round64 (real_of_int i + real_of_int (k - i)) = round64 (real_of_int k)" by simp
  also have "\<dots> = Num (real_of_int k)" using b by (rule round64_of_int)
  finally show "js_min (Num (real_of_int i))
           (js_add (Num (real_of_int i)) (Num (real_of_int (k - i)))) =
         Num (real_of_int (min i k))"
    by (simp add: min_def)
qed

text \<open>
  C5, as the code has it. A gesture is a press at \<open>a\<close>, moves, the last at \<open>q\<close>, and a
  release; the release handler gets no position, so the release point is that of the last
  move. In the editor with the camera selection, on a loaded snapshot, the released
  rectangle has the absolute values of the rounded differences \<open>q - a\<close> as its width and
  height, and as its origin the smaller of the press coordinate and the rounded sum of the
  press coordinate and that difference; drawing has ended. For integer positions below
  \<open>2 ^ 52\<close> in magnitude nothing rounds: the origin is the minimum corner of the span between
  the press and the release point, and the size is the distance between them. In the older
  editor the release handler is empty: the rectangle keeps the press point as its origin,
  and its width and height keep their sign.
\<close>

theorem release_normalizes:
  assumes "snapshot s = Some img"
  shows "rect (gesture s (Down a # map Move (ps @ [q]) @ [Up])) =
           Some \<lparr>rect_x = js_min (fst a) (js_add (fst a) (js_sub (fst q) (fst a))),
                 rect_y = js_min (snd a) (js_add (snd a) (js_sub (snd q) (snd a))),
                 rect_width = js_abs (js_sub (fst q) (fst a)),
                 rect_height = js_abs (js_sub (snd q) (snd a))\<rparr> \<and>
         \<not> isDrawing (gesture s (Down a # map Move (ps @ [q]) @ [Up])) \<and>
         (\<bar>ax\<bar> < 2 ^ 52 \<and> \<bar>ay\<bar> < 2 ^ 52 \<and> \<bar>qx\<bar> < 2 ^ 52 \<and> \<bar>qy\<bar> < 2 ^ 52 \<longrightarrow>
            rect (gesture s
                   (Down (Num (real_of_int ax), Num (real_of_int ay)) #
                    map Move (ps @ [(Num (real_of_int qx), Num (real_of_int qy))]) @ [Up])) =
              Some \<lparr>rect_x = Num (real_of_int (min ax qx)),
                    rect_y = Num (real_of_int (min ay qy)),
                    rect_width = Num (real_of_int \<bar>qx - ax\<bar>),
                    rect_height = Num (real_of_int \<bar>qy - ay\<bar>)\<rparr>) \<and>
         rect_legacy (gesture_legacy t (Down a # map Move (ps @ [q]) @ [Up])) =
           Some \<lparr>rect_x = fst a, rect_y = snd a,
                 rect_width = js_sub (fst q) (fst a),
                 rect_height = js_sub (snd q) (snd a)\<rparr>"
proof -
  have g: "gesture s (Down b # map Move (ps @ [r]) @ [Up]) =
      handleMouseUp (foldl pointer_event (handleMouseDown b s) (map Move (ps @ [r])))" for b r
    by (simp add: gesture_def)
  have r: "rect (gesture s (Down b # map Move (ps @ [r]) @ [Up])) =
           Some \<lparr>rect_x = js_min (fst b) (js_add (fst b) (js_sub (fst r) (fst b))),
                 rect_y = js_min (snd b) (js_add (snd b) (js_sub (snd r) (snd b))),
                 rect_width = js_abs (js_sub (fst r) (fst b)),
                 rect_height = js_abs (js_sub (snd r) (snd b))\<rparr>" for b r
    unfolding g moves_keep_anchor[OF assms]
    by (simp add: handleMouseUp_def normalizeRect_def)
  have d: "\<not> isDrawing (gesture s (Down a # map Move (ps @ [q]) @ [Up]))"
    unfolding g moves_keep_anchor[OF assms] by (simp add: handleMouseUp_def)
  have i: "rect (gesture s
                   (Down (Num (real_of_int ax), Num (real_of_int ay)) #
                    map Move (ps @ [(Num (real_of_int qx), Num (real_of_int qy))]) @ [Up])) =
              Some \<lparr>rect_x = Num (real_of_int (min ax qx)),
                    rect_y = Num (real_of_int (min ay qy)),
                    rect_width = Num (real_of_int \<bar>qx - ax\<bar>),
                    rect_height = Num (real_of_int \<bar>qy - ay\<bar>)\<rparr>"
    if "\<bar>ax\<bar> < 2 ^ 52 \<and> \<bar>ay\<bar> < 2 ^ 52 \<and> \<bar>qx\<bar> < 2 ^ 52 \<and> \<bar>qy\<bar> < 2 ^ 52"
  proof -
    from that have x: "\<bar>ax\<bar> < 2 ^ 52" "\<bar>qx\<bar> < 2 ^ 52" and y: "\<bar>ay\<bar> < 2 ^ 52" "\<bar>qy\<bar> < 2 ^ 52"
      by simp_all
    have p: "(2::int) ^ 53 = 2 * 2 ^ 52" by simp
    have "\<bar>qx\<bar> < 2 ^ 53" "\<bar>qy\<bar> < 2 ^ 53" unfolding p using x y by linarith+
    then have q: "round64 (real_of_int qx) = Num (real_of_int qx)"
      "round64 (real_of_int qy) = Num (real_of_int qy)"
      by (simp_all add: round64_of_int)
    show ?thesis
      unfolding r by (simp add: span_axis_int(1)[OF x] span_axis_int(1)[OF y] q min_def)
  qed
  have l: "rect_legacy (gesture_legacy t (Down a # map Move (ps @ [q]) @ [Up])) =
           Some \<lparr>rect_x = fst a, rect_y = snd a,
                 rect_width = js_sub (fst q) (fst a),
                 rect_height = js_sub (snd q) (snd a)\<rparr>"
  proof -
    have "gesture_legacy t (Down a # map Move (ps @ [q]) @ [Up]) =
        handleMouseUp_legacy
          (foldl pointer_event_legacy (handleMouseDown_legacy a t) (map Move (ps @ [q])))"
      by (simp add: gesture_legacy_def)
    then show ?thesis
      unfolding moves_keep_anchor_legacy by (simp add: handleMouseUp_legacy_def)
  qed
  from r[of a q] d i l show ?thesis by blast
qed

text \<open>The press at \<open>(50, 50)\<close> and the release at \<open>(10, 20)\<close> of the specification.\<close>

theorem release_normalizes_witness:
  "snapshot drawn = Some snap800 \<and>
   rect (gesture drawn
          [Down (Num 50, Num 50), Move (Num 30, Num 40), Move (Num 10, Num 20), Up]) =
     Some \<lparr>rect_x = Num 10, rect_y = Num 20, rect_width = Num 40, rect_height = Num 30\<rparr>"
proof -
  have h: "snapshot drawn = Some snap800" by (simp add: drawn_def)
  have b: "\<bar>50::int\<bar> < 2 ^ 52 \<and> \<bar>50::int\<bar> < 2 ^ 52 \<and> \<bar>10::int\<bar> < 2 ^ 52 \<and> \<bar>20::int\<bar> < 2 ^ 52"
    by simp
  note t = release_normalizes[OF h, where ps = "[(Num 30, Num 40)]" and ax = 50 and ay = 50
      and qx = 10 and qy = 20 and a = "(Num 50, Num 50)" and q = "(Num 10, Num 20)"
      and t = loaded_legacy]
  from t[THEN conjunct2, THEN conjunct2, THEN conjunct1] b
  have "rect (gesture drawn
          [Down (Num 50, Num 50), Move (Num 30, Num 40), Move (Num 10, Num 20), Up]) =
     Some \<lparr>rect_x = Num 10, rect_y = Num 20, rect_width = Num 40, rect_height = Num 30\<rparr>"
    by simp
  with h show ?thesis ..
qed

theorem release_legacy_counterexample:
  "rect_legacy (gesture_legacy loaded_legacy
      [Down (Num 50, Num 50), Move (Num 10, Num 20), Up]) =
     Some \<lparr>rect_x = Num 50, rect_y = Num 50, rect_width = Num (- 40),
           rect_height = Num (- 30)\<rparr>"
proof -
  have "js_sub (Num 10) (Num 50) = Num (- 40)" "js_sub (Num 20) (Num 50) = Num (- 30)"
    using span_axis_int(1)[of 50 10] span_axis_int(1)[of 50 20] by simp_all
  then show ?thesis
    by (simp add: gesture_legacy_def handleMouseDown_legacy_def handleMouseMove_legacy_def
        handleMouseUp_legacy_def loaded_legacy_def)
qed

subsection \<open>What is sent\<close>

lemma dim_cases:
  obtains "d = 0" "dim d = Num 0"
  | w where "d \<noteq> 0" "dim d = Num w" "1 \<le> w" "w < 2 ^ 32"
proof (cases "d = 0")
  case True
  then show ?thesis using that(1) by (simp add: dim_def)
next
  case False
  define w where "w = real (unat d)"
  have "unat d \<noteq> 0" using False by (simp add: unat_eq_0)
  then have "1 \<le> unat d" by simp
  then have "real 1 \<le> real (unat d)" by (simp only: of_nat_le_iff)
  then have a: "1 \<le> w" by (simp only: w_def of_nat_1)
  have "unat d < 2 ^ 32" using unsigned_less[of d] by simp
  then have "real (unat d) < real (2 ^ 32)" by (simp only: of_nat_less_iff)
  also have "real (2 ^ 32) = 2 ^ 32" by simp
  finally have b: "w < 2 ^ 32" by (simp only: w_def)
  have "dim d = Num w" by (simp only: dim_def w_def)
  from that(2)[OF False this a b] show ?thesis .
qed

text \<open>A quotient by a dimension that is finite is a binary64 value.\<close>

lemma js_div_dim_Num:
  assumes "js_div a (dim d) = Num x"
  shows "\<exists>u. x = binary64 u"
proof (cases d rule: dim_cases)
  case 1
  with assms show ?thesis
    by (cases a) (auto simp: signed_infinity_def split: if_splits)
next
  case (2 w)
  with assms show ?thesis
    by (cases a) (auto dest: round64_eq_Num split: if_splits)
qed

text \<open>On one axis: an origin and an extent that are finite and pass the checks lie in
  \<open>[0, 1]\<close>.\<close>

lemma validated_axis_bounds:
  assumes "\<not> js_lt (Num x) (Num 0)" "\<not> js_le (Num w) (Num 0)"
    and "\<not> js_gt (js_add (Num x) (Num w)) (Num 1)"
    and "x = binary64 u" "w = binary64 v"
  shows "0 \<le> x \<and> x \<le> 1 \<and> 0 < w \<and> w \<le> 1"
proof -
  have x: "0 \<le> x" and w: "0 < w" using assms(1,2) by simp_all
  have s: "x + w \<le> 1 + 1 / 2 ^ 53" using assms(3) by (simp add: js_gt_round64_one)
  have g: "(1::real) / 2 ^ 53 < 1 / 2 ^ 52" by simp
  from binary64_grid_at_one[of u] assms(4) have "x \<le> 1 \<or> 1 + 1 / 2 ^ 52 \<le> x" by simp
  with s w g have x1: "x \<le> 1" by linarith
  from binary64_grid_at_one[of v] assms(5) have "w \<le> 1 \<or> 1 + 1 / 2 ^ 52 \<le> w" by simp
  with s x g have w1: "w \<le> 1" by linarith
  from x x1 w w1 show ?thesis by simp
qed

text \<open>
  C6, as the code has it. The body that \<^verbatim>\<open>handleSave\<close> sends is a normalized rectangle
  marked \<^verbatim>\<open>coordinate_type: 'normalized'\<close>; on each axis, when the origin and the extent
  are both finite numbers, they lie in \<open>[0, 1]\<close>, the extent above \<open>0\<close>. The older editor
  sends the gate, the camera, the shape and two corner points in pixels, \<open>(x, y)\<close> and
  \<open>(x + width, y + height)\<close>. What the ROI fetch receives is stored as it comes, without a
  check.
\<close>

theorem sent_rectangles:
  "(handleSave s = Await c n \<longrightarrow> put_request c n = PutRoi c n ''normalized'') \<and>
   (handleSave s = Await c n \<and> roi_x n = Num x \<and> roi_w n = Num w \<longrightarrow>
      0 \<le> x \<and> x \<le> 1 \<and> 0 < w \<and> w \<le> 1) \<and>
   (handleSave s = Await c n \<and> roi_y n = Num y \<and> roi_h n = Num h \<longrightarrow>
      0 \<le> y \<and> y \<le> 1 \<and> 0 < h \<and> h \<le> 1) \<and>
   (rect_legacy t = Some r \<longrightarrow>
      handleSave_legacy t =
        Some (PostRois 1 1 ''rectangle''
               [(rect_x r, rect_y r),
                (js_add (rect_x r) (rect_width r), js_add (rect_y r) (rect_height r))])) \<and>
   roiNormalized (roiLoaded d s) = Some d"
proof -
  have a: "put_request c n = PutRoi c n ''normalized''" by (simp add: put_request_def)
  have b: "0 \<le> x \<and> x \<le> 1 \<and> 0 < w \<and> w \<le> 1"
    if "handleSave s = Await c n \<and> roi_x n = Num x \<and> roi_w n = Num w"
  proof -
    from that obtain r img where n: "n = normalized r img" and v: "validate n = None"
      by (auto simp: handleSave_Await_iff)
    from that n have "js_div (rect_x r) (dim (img_width img)) = Num x"
      "js_div (rect_width r) (dim (img_width img)) = Num w"
      by (simp_all add: normalized_def)
    then obtain u u' where u: "x = binary64 u" "w = binary64 u'"
      by (auto dest!: js_div_dim_Num)
    from v that have "\<not> js_lt (Num x) (Num 0)" "\<not> js_le (Num w) (Num 0)"
      "\<not> js_gt (js_add (Num x) (Num w)) (Num 1)"
      by (auto simp: validate_def split: if_splits)
    from validated_axis_bounds[OF this u] show ?thesis .
  qed
  have b': "0 \<le> y \<and> y \<le> 1 \<and> 0 < h \<and> h \<le> 1"
    if "handleSave s = Await c n \<and> roi_y n = Num y \<and> roi_h n = Num h"
  proof -
    from that obtain r img where n: "n = normalized r img" and v: "validate n = None"
      by (auto simp: handleSave_Await_iff)
    from that n have "js_div (rect_y r) (dim (img_height img)) = Num y"
      "js_div (rect_height r) (dim (img_height img)) = Num h"
      by (simp_all add: normalized_def)
    then obtain u u' where u: "y = binary64 u" "h = binary64 u'"
      by (auto dest!: js_div_dim_Num)
    from v that have "\<not> js_lt (Num y) (Num 0)" "\<not> js_le (Num h) (Num 0)"
      "\<not> js_gt (js_add (Num y) (Num h)) (Num 1)"
      by (auto simp: validate_def split: if_splits)
    from validated_axis_bounds[OF this u] show ?thesis .
  qed
  have l: "rect_legacy t = Some r \<longrightarrow>
      handleSave_legacy t =
        Some (PostRois 1 1 ''rectangle''
               [(rect_x r, rect_y r),
                (js_add (rect_x r) (rect_width r), js_add (rect_y r) (rect_height r))])"
    by (simp add: handleSave_legacy_def gateId_def cameraId_def)
  have g: "roiNormalized (roiLoaded d s) = Some d" by (simp add: roiLoaded_def)
  from a b b' l g show ?thesis by blast
qed

theorem sent_rectangles_witness:
  "handleSave drawn = Await 1 eighth_quarter \<and>
   put_request 1 eighth_quarter = PutRoi 1 eighth_quarter ''normalized'' \<and>
   roi_x eighth_quarter = Num (1 / 8) \<and> roi_w eighth_quarter = Num (1 / 4) \<and>
   (0::real) \<le> 1 / 8 \<and> (1::real) / 8 \<le> 1 \<and> (0::real) < 1 / 4 \<and> (1::real) / 4 \<le> 1 \<and>
   rect_legacy drawn_legacy = Some drawn_rect \<and>
   handleSave_legacy drawn_legacy =
     Some (PostRois 1 1 ''rectangle''
       [(rect_x drawn_rect, rect_y drawn_rect),
        (js_add (rect_x drawn_rect) (rect_width drawn_rect),
         js_add (rect_y drawn_rect) (rect_height drawn_rect))])"
proof -
  have h: "handleSave drawn = Await 1 eighth_quarter" by (rule handleSave_drawn)
  have f: "roi_x eighth_quarter = Num (1 / 8)" "roi_w eighth_quarter = Num (1 / 4)"
    by (simp_all add: eighth_quarter_def)
  have k: "rect_legacy drawn_legacy = Some drawn_rect" by (simp add: drawn_legacy_def)
  from sent_rectangles[of drawn 1 eighth_quarter "1 / 8" "1 / 4" _ _ drawn_legacy drawn_rect]
    h f k
  show ?thesis by blast
qed

text \<open>The older editor sends the drawn rectangle \<open>{100, 75, 200, 150}\<close> as the pixel
  corners \<open>(100, 75)\<close> and \<open>(300, 225)\<close>.\<close>

theorem pixel_corners_counterexample:
  "rect_legacy drawn_legacy = Some drawn_rect \<and>
   handleSave_legacy drawn_legacy =
     Some (PostRois 1 1 ''rectangle'' [(Num 100, Num 75), (Num 300, Num 225)])"
  by (simp add: handleSave_legacy_def drawn_legacy_def drawn_rect_def gateId_def cameraId_def)

text \<open>A body with fields that are not finite is not excluded: on a snapshot without
  extent, a rectangle at the origin is sent as \<open>{NaN, NaN, Infinity, Infinity}\<close>.\<close>

lemma sends_NaN_for_empty_snapshot:
  "handleSave
     \<lparr>cameras = [], selectedCameraId = Some 1,
      snapshot = Some \<lparr>img_width = 0, img_height = 0, img_src = ''blob:empty''\<rparr>,
      rect = Some \<lparr>rect_x = Num 0, rect_y = Num 0, rect_width = Num 10, rect_height = Num 10\<rparr>,
      isDrawing = False, roiNormalized = None\<rparr> =
   Await 1 \<lparr>roi_x = NaN, roi_y = NaN, roi_w = Infinity, roi_h = Infinity\<rparr>"
  by (simp add: handleSave_def normalized_def validate_def dim_def signed_infinity_def js_gt_def)

subsection \<open>To normalized coordinates and back\<close>






end
